theory Spec2Isabelle
  imports Complex_Main "HOL-Library.AList"
begin

section \<open>Python values used by check\_cpu.py\<close>

text \<open>
  The exceptions the modelled code can raise. \<open>KeyError\<close> carries the missing key.
\<close>

datatype pyerr =
    UnboundLocalError
  | IndexError
  | ValueError
  | KeyError string
  | TypeError
  | ZeroDivisionError

text \<open>
  A Python \<open>dict\<close> with string keys keeps its keys in insertion order; assigning to an
  existing key keeps the key's position. This is \<open>AList.update\<close> on an association list,
  with \<open>map_of\<close> as the lookup.
\<close>

type_synonym 'v dict = "(string \<times> 'v) list"

definition dict_get :: "'v dict \<Rightarrow> string \<Rightarrow> pyerr + 'v" where
  "dict_get d k = (case map_of d k of None \<Rightarrow> Inl (KeyError k) | Some v \<Rightarrow> Inr v)"

definition dict_set :: "'v dict \<Rightarrow> string \<Rightarrow> 'v \<Rightarrow> 'v dict" where
  "dict_set d k v = AList.update k v d"

text \<open>
  \<open>cpu_stats\<close> holds integers under the per-cpu keys and the raw strings \<open>parts[1]\<close> under
  \<open>'ctxt'\<close> and \<open>'processes'\<close>.
\<close>

datatype pyval = PInt int | PStr string

text \<open>
  The percentage dictionaries hold the int \<open>0\<close> (the \<open>else\<close> branch) or the float produced by
  true division. A float is modelled by the exact real quotient; the double that Python
  returns is that quotient rounded to nearest.
\<close>

datatype pynum = PyInt int | PyFloat real

fun num_val :: "pynum \<Rightarrow> real" where
  "num_val (PyInt i) = real_of_int i"
| "num_val (PyFloat r) = r"

text \<open>Sequencing: the first exception raised ends the computation.\<close>

definition seq :: "'e + 'a \<Rightarrow> ('a \<Rightarrow> 'e + 'b) \<Rightarrow> 'e + 'b" where
  "seq m f = (case m of Inl e \<Rightarrow> Inl e | Inr v \<Rightarrow> f v)"

section \<open>String primitives\<close>

text \<open>
  The statistics file is ASCII, so a \<open>string\<close> (a list of 8-bit characters) stands for the
  Python \<open>str\<close> read from it.
\<close>

definition startswith :: "string \<Rightarrow> string \<Rightarrow> bool" where
  "startswith s p = (take (length p) s = p)"

text \<open>\<open>text.split("\n")\<close>: always at least one piece.\<close>

fun split_nl :: "string \<Rightarrow> string list" where
  "split_nl [] = [] # []"
| "split_nl (c # cs) =
     (if c = CHR 0x0A then [] # split_nl cs
      else (case split_nl cs of [] \<Rightarrow> [c] # [] | l # ls \<Rightarrow> (c # l) # ls))"

text \<open>The ASCII characters for which \<open>str.isspace\<close> holds.\<close>

definition py_isspace :: "char \<Rightarrow> bool" where
  "py_isspace c = (c \<in> set [CHR 0x09, CHR 0x0A, CHR 0x0B, CHR 0x0C, CHR 0x0D,
                            CHR 0x1C, CHR 0x1D, CHR 0x1E, CHR 0x1F, CHR 0x20])"

text \<open>\<open>line.split()\<close>: maximal runs of non-whitespace; \<open>w\<close> is the run being read.\<close>

fun split_acc :: "string \<Rightarrow> string \<Rightarrow> string list" where
  "split_acc w [] = (if w = [] then [] else [w])"
| "split_acc w (c # cs) =
     (if py_isspace c then (if w = [] then split_acc [] cs else w # split_acc [] cs)
      else split_acc (w @ [c]) cs)"

definition py_split :: "string \<Rightarrow> string list" where
  "py_split s = split_acc [] s"

text \<open>\<open>' '.join(xs)\<close>\<close>

fun py_join :: "string list \<Rightarrow> string" where
  "py_join [] = []"
| "py_join [x] = x"
| "py_join (x # y # ys) = x @ '' '' @ py_join (y # ys)"

subsection \<open>\<open>int(s)\<close> on a token\<close>

text \<open>
  Base-10 \<open>int()\<close> of an ASCII token: an optional sign, then digits, where single
  underscores may stand between digits. The tokens come from \<open>split()\<close> and hold no
  whitespace, so the stripping \<open>int()\<close> does first is not modelled; nor is the
  interpreter's configurable limit on the number of digits.
\<close>

definition is_digit :: "char \<Rightarrow> bool" where
  "is_digit c = (c \<in> set ''0123456789'')"

text \<open>The value of a digit is its position in \<open>0123456789\<close>.\<close>

definition digit_val :: "char \<Rightarrow> int" where
  "digit_val c = int (length (takeWhile (\<lambda>d. d \<noteq> c) ''0123456789''))"

fun digits_val :: "int \<Rightarrow> string \<Rightarrow> int option" where
  "digits_val acc [] = Some acc"
| "digits_val acc (c # cs) =
     (if is_digit c then digits_val (acc * 10 + digit_val c) cs
      else if c = CHR ''_'' then
        (case cs of
           [] \<Rightarrow> None
         | d # ds \<Rightarrow> if is_digit d then digits_val (acc * 10 + digit_val d) ds else None)
      else None)"

definition py_nat_lit :: "string \<Rightarrow> int option" where
  "py_nat_lit s =
     (case s of [] \<Rightarrow> None | c # cs \<Rightarrow> if is_digit c then digits_val (digit_val c) cs else None)"

definition py_int :: "string \<Rightarrow> int option" where
  "py_int s =
     (case s of
        [] \<Rightarrow> None
      | c # cs \<Rightarrow>
          if c = CHR ''-'' then map_option uminus (py_nat_lit cs)
          else if c = CHR ''+'' then py_nat_lit cs
          else py_nat_lit s)"

subsection \<open>\<open>str(n)\<close> of an int\<close>

fun show_nat :: "nat \<Rightarrow> string" where
  "show_nat n =
     (if n < 10 then [''0123456789'' ! n] else show_nat (n div 10) @ [''0123456789'' ! (n mod 10)])"

declare show_nat.simps [simp del]

definition show_int :: "int \<Rightarrow> string" where
  "show_int i = (if i < 0 then CHR ''-'' # show_nat (nat (- i)) else show_nat (nat i))"

text \<open>
  \<open>str\<close> of a percentage inside an f-string. The decimal rendering of a float (the
  shortest string that reads back as the same double) is a library routine outside this
  model and is taken as the parameter \<open>fmt\<close>.
\<close>

fun py_str :: "(real \<Rightarrow> string) \<Rightarrow> pynum \<Rightarrow> string" where
  "py_str fmt (PyInt i) = show_int i"
| "py_str fmt (PyFloat r) = fmt r"

text \<open>
  A rendering that agrees with Python's on floats of integral value below \<open>10^16\<close>
  (\<open>99.0\<close>, \<open>0.0\<close>, \<open>-10.0\<close>); used only to evaluate the model on such values.
\<close>

definition whole_repr :: "real \<Rightarrow> string" where
  "whole_repr r = show_int \<lfloor>r\<rfloor> @ ''.0''"

section \<open>get\_procstat\_now\<close>

text \<open>
  The state of the line loop: the local \<open>parts\<close> (unbound until a cpu line has been
  split), the dictionary under construction and the global \<open>cpu_id_list\<close>.
\<close>

record pstate =
  parts :: "string list option"
  cpu_stats :: "pyval dict"
  id_list :: "string list"

text \<open>\<open>[int(tick) for tick in cpu_ticks]\<close>\<close>

fun int_ticks :: "string list \<Rightarrow> pyerr + int list" where
  "int_ticks [] = Inr []"
| "int_ticks (t # ts) =
     (case py_int t of
        None \<Rightarrow> Inl ValueError
      | Some v \<Rightarrow> (case int_ticks ts of Inl e \<Rightarrow> Inl e | Inr vs \<Rightarrow> Inr (v # vs)))"

text \<open>\<open>while len(cpu_ticks_array) < 10: cpu_ticks_array.append(0)\<close>\<close>

function pad_ticks :: "int list \<Rightarrow> int list" where
  "pad_ticks a = (if length a < 10 then pad_ticks (a @ [0]) else a)"
  by pat_completeness auto
termination
  by (relation "measure (\<lambda>a. 10 - length a)") auto

declare pad_ticks.simps [simp del]

text \<open>
  Lines 105 to 111: the ten-way unpacking (which raises \<open>ValueError\<close> unless the array has
  exactly ten elements) and the four dictionary stores.
\<close>

definition store_ticks :: "pyval dict \<Rightarrow> string \<Rightarrow> int list \<Rightarrow> pyval dict" where
  "store_ticks d cpu_id a =
     (let idle = a ! 3; io_wait = a ! 4; steal = a ! 7;
          cpu_usage = sum_list a - idle;
          cpu_total_ticks = sum_list a;
          d1 = dict_set d cpu_id (PInt cpu_usage);
          d2 = dict_set d1 (cpu_id @ ''all'') (PInt cpu_total_ticks);
          d3 = dict_set d2 (cpu_id @ ''io_wait'') (PInt io_wait)
      in dict_set d3 (cpu_id @ ''steal'') (PInt steal))"

text \<open>A cpu line, from \<open>parts = line.split()\<close> to \<open>cpu_id_list.append(cpu_id)\<close>.\<close>

definition cpu_line :: "pstate \<Rightarrow> string list \<Rightarrow> pyerr + pstate" where
  "cpu_line st p =
     (case p of
        [] \<Rightarrow> Inl IndexError
      | cpu_id # cpu_ticks \<Rightarrow>
          seq (int_ticks cpu_ticks) (\<lambda>ticks.
            let cpu_ticks_array = pad_ticks ticks in
            if length cpu_ticks_array \<noteq> 10 then Inl ValueError
            else Inr \<lparr> parts = Some p,
                       cpu_stats = store_ticks (cpu_stats st) cpu_id cpu_ticks_array,
                       id_list = id_list st @ [cpu_id] \<rparr>))"

text \<open>
  The \<open>ctxt\<close> and \<open>processes\<close> branches: they read \<open>parts[1]\<close> without splitting the
  current line, so \<open>parts\<close> is whatever the last cpu line left.
\<close>

definition scalar_line :: "pstate \<Rightarrow> string \<Rightarrow> pyerr + pstate" where
  "scalar_line st key =
     (case parts st of
        None \<Rightarrow> Inl UnboundLocalError
      | Some p \<Rightarrow>
          if 1 < length p then Inr (st\<lparr> cpu_stats := dict_set (cpu_stats st) key (PStr (p ! 1)) \<rparr>)
          else Inl IndexError)"

definition procstat_line :: "pstate \<Rightarrow> string \<Rightarrow> pyerr + pstate" where
  "procstat_line st line =
     (if startswith line ''cpu '' then cpu_line st (py_split line)
      else if startswith line ''cpu'' then cpu_line st (py_split line)
      else if startswith line ''ctxt'' then scalar_line st ''ctxt''
      else if startswith line ''processes'' then scalar_line st ''processes''
      else Inr st)"

fun procstat_loop :: "pstate \<Rightarrow> string list \<Rightarrow> pyerr + pstate" where
  "procstat_loop st [] = Inr st"
| "procstat_loop st (line # rest) =
     (case procstat_line st line of Inl e \<Rightarrow> Inl e | Inr st' \<Rightarrow> procstat_loop st' rest)"

text \<open>
  \<open>procstat_text\<close> is what \<open>procstat.read()\<close> returned. The result is the returned
  dictionary together with the value left in the global \<open>cpu_id_list\<close>.
\<close>

definition get_procstat_now :: "string \<Rightarrow> pyerr + (pyval dict \<times> string list)" where
  "get_procstat_now procstat_text =
     (case procstat_loop \<lparr> parts = None, cpu_stats = [], id_list = [] \<rparr> (split_nl procstat_text) of
        Inl e \<Rightarrow> Inl e
      | Inr st \<Rightarrow> Inr (cpu_stats st, id_list st))"

section \<open>Configuration and computed state\<close>

text \<open>The Nagios return codes.\<close>

definition OK :: int where "OK = 0"
definition WARNING :: int where "WARNING = 1"
definition CRITICAL :: int where "CRITICAL = 2"
definition UNKNOWN :: int where "UNKNOWN = 3"

text \<open>The globals that \<open>command_line_validate\<close> sets; every one is an \<open>int\<close>.\<close>

record config =
  warn :: int
  crit :: int
  per_cpu_warn :: int
  per_cpu_crit :: int
  io_warn :: int
  io_crit :: int
  io_warn_overall :: int
  io_crit_overall :: int
  steal_warn :: int
  steal_crit :: int
  sample_period :: int
  perfdata_abs :: int

definition default_config :: config where
  "default_config =
     \<lparr> warn = 95, crit = 98, per_cpu_warn = 98, per_cpu_crit = 100,
       io_warn = 90, io_crit = 98, io_warn_overall = 100, io_crit_overall = 100,
       steal_warn = 30, steal_crit = 80, sample_period = 1, perfdata_abs = 1 \<rparr>"

text \<open>The globals that \<open>get_cpu_stats\<close> writes.\<close>

record globals =
  cpu_percent :: "pynum dict"
  io_wait_percent :: "pynum dict"
  steal_percent :: "pynum dict"
  cpu_id_list :: "string list"
  ctxt_per_second :: pynum
  processes_per_second :: pynum
  cpu_stats_t1 :: "pyval dict"

definition initial_globals :: globals where
  "initial_globals =
     \<lparr> cpu_percent = [], io_wait_percent = [], steal_percent = [], cpu_id_list = [],
       ctxt_per_second = PyInt 0, processes_per_second = PyInt 0, cpu_stats_t1 = [] \<rparr>"

section \<open>get\_cpu\_stats\<close>

text \<open>\<open>a - b\<close> on dictionary values: defined on two ints, a \<open>TypeError\<close> on a string.\<close>

fun py_sub :: "pyval \<Rightarrow> pyval \<Rightarrow> pyerr + int" where
  "py_sub (PInt a) (PInt b) = Inr (a - b)"
| "py_sub _ _ = Inl TypeError"

text \<open>
  \<open>float(v)\<close>. On a string only the tokens \<open>int()\<close> accepts are modelled (\<open>float()\<close> also
  reads decimal points, exponents, \<open>inf\<close> and \<open>nan\<close>); \<open>get_procstat_now\<close> stores no other
  string, see \<open>procstat_scalars_int\<close> below.
\<close>

fun py_float :: "pyval \<Rightarrow> pyerr + real" where
  "py_float (PInt i) = Inr (real_of_int i)"
| "py_float (PStr s) = (case py_int s of None \<Rightarrow> Inl ValueError | Some i \<Rightarrow> Inr (real_of_int i))"

text \<open>One pass of the loop body, lines 121 to 131.\<close>

definition cpu_rates_step :: "pyval dict \<Rightarrow> pyval dict \<Rightarrow> globals \<Rightarrow> string \<Rightarrow> pyerr + globals" where
  "cpu_rates_step cpu_stats_t0 t1 g cpu_id =
     seq (dict_get t1 (cpu_id @ ''all'')) (\<lambda>total_t1.
     seq (dict_get cpu_stats_t0 (cpu_id @ ''all'')) (\<lambda>total_t0.
     seq (py_sub total_t1 total_t0) (\<lambda>delta_total.
       if delta_total > 0 then
         seq (dict_get t1 cpu_id) (\<lambda>u1.
         seq (dict_get cpu_stats_t0 cpu_id) (\<lambda>u0.
         seq (py_sub u1 u0) (\<lambda>du.
         seq (dict_get t1 (cpu_id @ ''io_wait'')) (\<lambda>w1.
         seq (dict_get cpu_stats_t0 (cpu_id @ ''io_wait'')) (\<lambda>w0.
         seq (py_sub w1 w0) (\<lambda>dw.
         seq (dict_get t1 (cpu_id @ ''steal'')) (\<lambda>s1.
         seq (dict_get cpu_stats_t0 (cpu_id @ ''steal'')) (\<lambda>s0.
         seq (py_sub s1 s0) (\<lambda>ds.
           Inr (g\<lparr> cpu_percent := dict_set (cpu_percent g) cpu_id
                        (PyFloat (real_of_int (du * 100) / real_of_int delta_total)),
                    io_wait_percent := dict_set (io_wait_percent g) cpu_id
                        (PyFloat (real_of_int (dw * 100) / real_of_int delta_total)),
                    steal_percent := dict_set (steal_percent g) cpu_id
                        (PyFloat (real_of_int (ds * 100) / real_of_int delta_total)) \<rparr>))))))))))
       else
         Inr (g\<lparr> cpu_percent := dict_set (cpu_percent g) cpu_id (PyInt 0),
                  io_wait_percent := dict_set (io_wait_percent g) cpu_id (PyInt 0),
                  steal_percent := dict_set (steal_percent g) cpu_id (PyInt 0) \<rparr>))))"

text \<open>\<open>for cpu_id in cpu_id_list\<close>, lines 120 to 131.\<close>

fun cpu_rates_loop :: "pyval dict \<Rightarrow> pyval dict \<Rightarrow> globals \<Rightarrow> string list \<Rightarrow> pyerr + globals" where
  "cpu_rates_loop cpu_stats_t0 t1 g [] = Inr g"
| "cpu_rates_loop cpu_stats_t0 t1 g (cpu_id # rest) =
     (case cpu_rates_step cpu_stats_t0 t1 g cpu_id of
        Inl e \<Rightarrow> Inl e
      | Inr g' \<Rightarrow> cpu_rates_loop cpu_stats_t0 t1 g' rest)"

text \<open>
  Lines 132 and 133 for one key: \<open>(float(cpu_stats_t1[key]) - float(cpu_stats_t0[key])) / sample_period\<close>.
\<close>

definition scalar_rate :: "pyval dict \<Rightarrow> pyval dict \<Rightarrow> string \<Rightarrow> int \<Rightarrow> pyerr + pynum" where
  "scalar_rate cpu_stats_t0 t1 key period =
     seq (dict_get t1 key) (\<lambda>v1.
     seq (py_float v1) (\<lambda>f1.
     seq (dict_get cpu_stats_t0 key) (\<lambda>v0.
     seq (py_float v0) (\<lambda>f0.
       if period = 0 then Inl ZeroDivisionError
       else Inr (PyFloat ((f1 - f0) / real_of_int period))))))"

text \<open>
  \<open>text0\<close> and \<open>text1\<close> are the contents of the statistics file at the two reads.
  \<open>time.sleep\<close> raises \<open>ValueError\<close> on a negative period.
\<close>

definition get_cpu_stats :: "config \<Rightarrow> globals \<Rightarrow> string \<Rightarrow> string \<Rightarrow> pyerr + globals" where
  "get_cpu_stats cfg g text0 text1 =
     seq (get_procstat_now text0) (\<lambda>(cpu_stats_t0, ids0).
       if sample_period cfg < 0 then Inl ValueError
       else
         seq (get_procstat_now text1) (\<lambda>(t1, ids1).
         seq (cpu_rates_loop cpu_stats_t0 t1 (g\<lparr> cpu_id_list := ids1, cpu_stats_t1 := t1 \<rparr>) ids1) (\<lambda>g1.
         seq (scalar_rate cpu_stats_t0 t1 ''ctxt'' (sample_period cfg)) (\<lambda>c.
         seq (scalar_rate cpu_stats_t0 t1 ''processes'' (sample_period cfg)) (\<lambda>p.
           Inr (g1\<lparr> ctxt_per_second := c, processes_per_second := p \<rparr>))))))"

section \<open>performance\_data\<close>

definition perf_triplet :: "(real \<Rightarrow> string) \<Rightarrow> config \<Rightarrow> string \<Rightarrow> pynum \<Rightarrow> pynum \<Rightarrow> pynum \<Rightarrow> string list" where
  "perf_triplet fmt cfg cpu_id c w s =
     [cpu_id @ ''='' @ py_str fmt c @ ''%;'' @ show_int (warn cfg) @ '';'' @ show_int (crit cfg) @ '';0;100'',
      cpu_id @ ''_iowait='' @ py_str fmt w @ ''%;'' @ show_int (io_warn cfg) @ '';'' @ show_int (io_crit cfg) @ '';0;100'',
      cpu_id @ ''_steal='' @ py_str fmt s @ ''%;'' @ show_int (steal_warn cfg) @ '';'' @ show_int (steal_crit cfg) @ '';0;100'']"

fun perf_loop :: "(real \<Rightarrow> string) \<Rightarrow> config \<Rightarrow> globals \<Rightarrow> string list \<Rightarrow> string list \<Rightarrow> pyerr + string list" where
  "perf_loop fmt cfg g perf_message_array [] = Inr perf_message_array"
| "perf_loop fmt cfg g perf_message_array (cpu_id # rest) =
     (case dict_get (cpu_percent g) cpu_id of
        Inl e \<Rightarrow> Inl e
      | Inr c \<Rightarrow>
         (case dict_get (io_wait_percent g) cpu_id of
            Inl e \<Rightarrow> Inl e
          | Inr w \<Rightarrow>
             (case dict_get (steal_percent g) cpu_id of
                Inl e \<Rightarrow> Inl e
              | Inr s \<Rightarrow> perf_loop fmt cfg g (perf_message_array @ perf_triplet fmt cfg cpu_id c w s) rest)))"

definition performance_data :: "(real \<Rightarrow> string) \<Rightarrow> config \<Rightarrow> globals \<Rightarrow> pyerr + string" where
  "performance_data fmt cfg g =
     (case perf_loop fmt cfg g [] (cpu_id_list g) of
        Inl e \<Rightarrow> Inl e
      | Inr perf_message_array \<Rightarrow> Inr (py_join perf_message_array))"

section \<open>check\_status\<close>

definition crit_message :: "(real \<Rightarrow> string) \<Rightarrow> config \<Rightarrow> string \<Rightarrow> pynum \<Rightarrow> string" where
  "crit_message fmt cfg cpu_id v =
     ''CRITICAL: '' @ cpu_id @ '' CPU usage at '' @ py_str fmt v
       @ ''% exceeds critical threshold of '' @ show_int (crit cfg) @ ''%''"

definition warn_message :: "(real \<Rightarrow> string) \<Rightarrow> config \<Rightarrow> string \<Rightarrow> pynum \<Rightarrow> string" where
  "warn_message fmt cfg cpu_id v =
     ''WARNING: '' @ cpu_id @ '' CPU usage at '' @ py_str fmt v
       @ ''% exceeds warning threshold of '' @ show_int (warn cfg) @ ''%''"

fun check_loop :: "(real \<Rightarrow> string) \<Rightarrow> config \<Rightarrow> globals \<Rightarrow> int \<Rightarrow> string list \<Rightarrow> string list \<Rightarrow> pyerr + (int \<times> string list)" where
  "check_loop fmt cfg g result messages [] = Inr (result, messages)"
| "check_loop fmt cfg g result messages (cpu_id # rest) =
     (case dict_get (cpu_percent g) cpu_id of
        Inl e \<Rightarrow> Inl e
      | Inr v \<Rightarrow>
          if num_val v \<ge> real_of_int (crit cfg) then
            check_loop fmt cfg g CRITICAL (messages @ [crit_message fmt cfg cpu_id v]) rest
          else if num_val v \<ge> real_of_int (warn cfg) then
            check_loop fmt cfg g WARNING (messages @ [warn_message fmt cfg cpu_id v]) rest
          else check_loop fmt cfg g result messages rest)"

definition check_status :: "(real \<Rightarrow> string) \<Rightarrow> config \<Rightarrow> globals \<Rightarrow> pyerr + (int \<times> string)" where
  "check_status fmt cfg g =
     (case check_loop fmt cfg g OK [] (cpu_id_list g) of
        Inl e \<Rightarrow> Inl e
      | Inr (result, messages) \<Rightarrow>
          Inr (result,
               py_join (if messages = [] then [''OK: CPU usage is within normal parameters'']
                        else messages)))"

section \<open>main\<close>

text \<open>
  \<open>main\<close> after \<open>command_line_validate\<close>: the exit code and the line printed, or the
  exception that ends the run.
\<close>

definition main :: "(real \<Rightarrow> string) \<Rightarrow> config \<Rightarrow> string \<Rightarrow> string \<Rightarrow> pyerr + (int \<times> string)" where
  "main fmt cfg text0 text1 =
     seq (get_cpu_stats cfg initial_globals text0 text1) (\<lambda>g.
     seq (performance_data fmt cfg g) (\<lambda>perf_message.
     seq (check_status fmt cfg g) (\<lambda>(exit_code, result_message).
       Inr (exit_code, result_message @ '' | '' @ perf_message))))"

section \<open>Predicates and helper functions used in the statements\<close>

text \<open>A line that takes the final \<open>else: continue\<close> of the line loop.\<close>

definition ignored_line :: "string \<Rightarrow> bool" where
  "ignored_line l = (\<not> startswith l ''cpu'' \<and> \<not> startswith l ''ctxt'' \<and> \<not> startswith l ''processes'')"

text \<open>
  What the assignments of lines 125 to 131 store for a counter that moved by \<open>delta\<close> while
  the total moved by \<open>delta_total\<close>.
\<close>

definition rate_of :: "int \<Rightarrow> int \<Rightarrow> pynum" where
  "rate_of delta delta_total =
     (if delta_total > 0 then PyFloat (real_of_int (delta * 100) / real_of_int delta_total)
      else PyInt 0)"

text \<open>
  The snapshot \<open>d\<close> holds for \<open>cpu_id\<close> the four values that lines 106 to 111 derive from the
  ten-element tick array \<open>a\<close>.
\<close>

definition snapshot_entry :: "pyval dict \<Rightarrow> string \<Rightarrow> int list \<Rightarrow> bool" where
  "snapshot_entry d cpu_id a =
     (length a = 10
      \<and> map_of d cpu_id = Some (PInt (sum_list a - a ! 3))
      \<and> map_of d (cpu_id @ ''all'') = Some (PInt (sum_list a))
      \<and> map_of d (cpu_id @ ''io_wait'') = Some (PInt (a ! 4))
      \<and> map_of d (cpu_id @ ''steal'') = Some (PInt (a ! 7)))"

text \<open>
  The key \<open>k\<close> of a snapshot holds an integer; all four keys of \<open>cpu_id\<close> do.
\<close>

definition int_at :: "pyval dict \<Rightarrow> string \<Rightarrow> bool" where
  "int_at d k = (case map_of d k of Some (PInt i) \<Rightarrow> True | _ \<Rightarrow> False)"

definition has_entry :: "pyval dict \<Rightarrow> string \<Rightarrow> bool" where
  "has_entry d cpu_id =
     (int_at d cpu_id \<and> int_at d (cpu_id @ ''all'') \<and> int_at d (cpu_id @ ''io_wait'')
      \<and> int_at d (cpu_id @ ''steal''))"

text \<open>The ids the kernel writes: \<open>cpu\<close>, or \<open>cpu\<close> followed by a core index.\<close>

definition cpu_id_ok :: "string \<Rightarrow> bool" where
  "cpu_id_ok s = (startswith s ''cpu'' \<and> list_all is_digit (drop 3 s))"

text \<open>The keys that cpu lines with the ids \<open>ks\<close> and the two scalar branches can write.\<close>

definition snapshot_keys :: "string list \<Rightarrow> string set" where
  "snapshot_keys ks =
     (\<Union>k \<in> set ks. {k, k @ ''all'', k @ ''io_wait'', k @ ''steal''}) \<union> {''ctxt'', ''processes''}"

text \<open>
  What the line loop maintains: every listed id starts with \<open>cpu\<close> and has its four
  integer values, and no key outside \<open>snapshot_keys\<close> is written.
\<close>

definition snapshot_inv :: "pstate \<Rightarrow> bool" where
  "snapshot_inv st =
     ((\<forall>k \<in> set (id_list st). startswith k ''cpu'' \<and> has_entry (cpu_stats st) k)
      \<and> fst ` set (cpu_stats st) \<subseteq> snapshot_keys (id_list st))"

text \<open>All three percentage dictionaries hold a value for \<open>cpu_id\<close>.\<close>

definition has_rates :: "globals \<Rightarrow> string \<Rightarrow> bool" where
  "has_rates g cpu_id =
     (map_of (cpu_percent g) cpu_id \<noteq> None
      \<and> map_of (io_wait_percent g) cpu_id \<noteq> None
      \<and> map_of (steal_percent g) cpu_id \<noteq> None)"

text \<open>
  The three tokens \<open>performance_data\<close> appends for \<open>cpu_id\<close> when its three lookups succeed.
\<close>

definition perf_tokens :: "(real \<Rightarrow> string) \<Rightarrow> config \<Rightarrow> globals \<Rightarrow> string \<Rightarrow> string list" where
  "perf_tokens fmt cfg g cpu_id =
     perf_triplet fmt cfg cpu_id
       (the (map_of (cpu_percent g) cpu_id))
       (the (map_of (io_wait_percent g) cpu_id))
       (the (map_of (steal_percent g) cpu_id))"

text \<open>The message, if any, that one pass of the loop of \<open>check_status\<close> appends for \<open>cpu_id\<close>.\<close>

definition breach_message :: "(real \<Rightarrow> string) \<Rightarrow> config \<Rightarrow> globals \<Rightarrow> string \<Rightarrow> string option" where
  "breach_message fmt cfg g cpu_id =
     (case map_of (cpu_percent g) cpu_id of
        None \<Rightarrow> None
      | Some v \<Rightarrow>
          if num_val v \<ge> real_of_int (crit cfg) then Some (crit_message fmt cfg cpu_id v)
          else if num_val v \<ge> real_of_int (warn cfg) then Some (warn_message fmt cfg cpu_id v)
          else None)"

text \<open>The value, if any, that the same pass assigns to \<open>result\<close>.\<close>

definition breach_severity :: "config \<Rightarrow> globals \<Rightarrow> string \<Rightarrow> int option" where
  "breach_severity cfg g cpu_id =
     (case map_of (cpu_percent g) cpu_id of
        None \<Rightarrow> None
      | Some v \<Rightarrow>
          if num_val v \<ge> real_of_int (crit cfg) then Some CRITICAL
          else if num_val v \<ge> real_of_int (warn cfg) then Some WARNING
          else None)"

section \<open>Sample inputs\<close>

text \<open>The contents of a statistics file with the given lines, each ended by a newline.\<close>

definition file_text :: "string list \<Rightarrow> string" where
  "file_text ls = concat (map (\<lambda>l. l @ [CHR 0x0A]) ls)"

text \<open>Two cores; between the reads cpu0 is busy for 100 of 100 ticks and cpu1 for 96 of 100.\<close>

definition stat_a0 :: string where
  "stat_a0 = file_text
     [''cpu  500 0 0 500 0 0 0 0 0 0'',
      ''cpu0 250 0 0 250 0 0 0 0 0 0'',
      ''cpu1 250 0 0 250 0 0 0 0 0 0'',
      ''intr 12345 1 2 3'',
      ''ctxt 5000'',
      ''btime 1700000000'',
      ''processes 300'',
      ''procs_running 1'']"

definition stat_a1 :: string where
  "stat_a1 = file_text
     [''cpu  696 0 0 504 0 0 0 0 0 0'',
      ''cpu0 350 0 0 250 0 0 0 0 0 0'',
      ''cpu1 346 0 0 254 0 0 0 0 0 0'',
      ''intr 12399 1 2 3'',
      ''ctxt 5600'',
      ''btime 1700000000'',
      ''processes 310'',
      ''procs_running 1'']"

text \<open>The snapshot that \<open>get_procstat_now\<close> returns on \<open>stat_a1\<close>.\<close>

definition snap_a1 :: "pyval dict" where
  "snap_a1 =
     [(''cpu'', PInt 696), (''cpuall'', PInt 1200), (''cpuio_wait'', PInt 0), (''cpusteal'', PInt 0),
      (''cpu0'', PInt 350), (''cpu0all'', PInt 600), (''cpu0io_wait'', PInt 0), (''cpu0steal'', PInt 0),
      (''cpu1'', PInt 346), (''cpu1all'', PInt 600), (''cpu1io_wait'', PInt 0), (''cpu1steal'', PInt 0),
      (''ctxt'', PStr ''346''), (''processes'', PStr ''346'')]"

text \<open>The globals after \<open>get_cpu_stats\<close> on \<open>stat_a0\<close>, \<open>stat_a1\<close>.\<close>

definition final_a :: globals where
  "final_a =
     \<lparr> cpu_percent = [(''cpu'', PyFloat 98), (''cpu0'', PyFloat 100), (''cpu1'', PyFloat 96)],
       io_wait_percent = [(''cpu'', PyFloat 0), (''cpu0'', PyFloat 0), (''cpu1'', PyFloat 0)],
       steal_percent = [(''cpu'', PyFloat 0), (''cpu0'', PyFloat 0), (''cpu1'', PyFloat 0)],
       cpu_id_list = [''cpu'', ''cpu0'', ''cpu1''],
       ctxt_per_second = PyFloat 96, processes_per_second = PyFloat 96, cpu_stats_t1 = snap_a1 \<rparr>"

text \<open>Three cores; cpu0 is busy for 100 of 100 ticks, cpu1 is idle, cpu2 is busy for 20.\<close>

definition stat_b0 :: string where
  "stat_b0 = file_text
     [''cpu  300 0 0 600 0 0 0 0 0 0'',
      ''cpu0 100 0 0 200 0 0 0 0 0 0'',
      ''cpu1 100 0 0 200 0 0 0 0 0 0'',
      ''cpu2 100 0 0 200 0 0 0 0 0 0'',
      ''ctxt 5000'',
      ''processes 300'']"

definition stat_b1 :: string where
  "stat_b1 = file_text
     [''cpu  420 0 0 780 0 0 0 0 0 0'',
      ''cpu0 200 0 0 200 0 0 0 0 0 0'',
      ''cpu1 100 0 0 300 0 0 0 0 0 0'',
      ''cpu2 120 0 0 280 0 0 0 0 0 0'',
      ''ctxt 5600'',
      ''processes 310'']"

text \<open>
  Two cores; cpu0 spends 92 of 100 ticks in io-wait, cpu1 has 50 of 100 ticks stolen.
\<close>

definition stat_c0 :: string where
  "stat_c0 = file_text
     [''cpu  200 0 0 600 100 0 0 100 0 0'',
      ''cpu0 100 0 0 300 50 0 0 50 0 0'',
      ''cpu1 100 0 0 300 50 0 0 50 0 0'',
      ''ctxt 5000'',
      ''processes 300'']"

definition stat_c1 :: string where
  "stat_c1 = file_text
     [''cpu  200 0 0 658 192 0 0 150 0 0'',
      ''cpu0 100 0 0 308 142 0 0 50 0 0'',
      ''cpu1 100 0 0 350 50 0 0 100 0 0'',
      ''ctxt 5600'',
      ''processes 310'']"

text \<open>
  One aggregate line; between the reads the total grows by 100 ticks while the io-wait
  counter falls from 50 to 40.
\<close>

definition stat_d0 :: string where
  "stat_d0 = file_text
     [''cpu  10 0 0 0 50 0 0 0 0 0'',
      ''ctxt 5000'',
      ''processes 300'']"

definition stat_d1 :: string where
  "stat_d1 = file_text
     [''cpu  120 0 0 0 40 0 0 0 0 0'',
      ''ctxt 5600'',
      ''processes 310'']"

text \<open>The snapshots that \<open>get_procstat_now\<close> returns on \<open>stat_d0\<close> and \<open>stat_d1\<close>.\<close>

definition snap_d0 :: "pyval dict" where
  "snap_d0 =
     [(''cpu'', PInt 60), (''cpuall'', PInt 60), (''cpuio_wait'', PInt 50), (''cpusteal'', PInt 0),
      (''ctxt'', PStr ''10''), (''processes'', PStr ''10'')]"

definition snap_d1 :: "pyval dict" where
  "snap_d1 =
     [(''cpu'', PInt 160), (''cpuall'', PInt 160), (''cpuio_wait'', PInt 40), (''cpusteal'', PInt 0),
      (''ctxt'', PStr ''120''), (''processes'', PStr ''120'')]"

text \<open>
  The globals after the rate loop alone, started from \<open>initial_globals\<close> on \<open>snap_d0\<close>, \<open>snap_d1\<close>.
\<close>

definition rates_d :: globals where
  "rates_d =
     \<lparr> cpu_percent = [(''cpu'', PyFloat 100)], io_wait_percent = [(''cpu'', PyFloat (- 10))],
       steal_percent = [(''cpu'', PyFloat 0)], cpu_id_list = [], ctxt_per_second = PyInt 0,
       processes_per_second = PyInt 0, cpu_stats_t1 = [] \<rparr>"

text \<open>The same with \<open>snap_d0\<close> as both snapshots: no counter moved.\<close>

definition rates_z :: globals where
  "rates_z =
     \<lparr> cpu_percent = [(''cpu'', PyInt 0)], io_wait_percent = [(''cpu'', PyInt 0)],
       steal_percent = [(''cpu'', PyInt 0)], cpu_id_list = [], ctxt_per_second = PyInt 0,
       processes_per_second = PyInt 0, cpu_stats_t1 = [] \<rparr>"

text \<open>The globals after \<open>get_cpu_stats\<close> on \<open>stat_d0\<close>, \<open>stat_d1\<close>.\<close>

definition final_d :: globals where
  "final_d =
     \<lparr> cpu_percent = [(''cpu'', PyFloat 100)], io_wait_percent = [(''cpu'', PyFloat (- 10))],
       steal_percent = [(''cpu'', PyFloat 0)], cpu_id_list = [''cpu''],
       ctxt_per_second = PyFloat 110, processes_per_second = PyFloat 110, cpu_stats_t1 = snap_d1 \<rparr>"

text \<open>A first read whose second cpu line holds a token that is not an integer.\<close>

definition stat_bad :: string where
  "stat_bad = file_text
     [''cpu  10 0 0 0 50 0 0 0 0 0'',
      ''cpu0 10 x 0 0 50 0 0 0 0 0'',
      ''ctxt 5000'',
      ''processes 300'']"

text \<open>
  A core whose ten counters all grow or stay: 50 of 100 ticks busy, 20 in io-wait, 5 stolen.
\<close>

definition ticks_e0 :: "int list" where
  "ticks_e0 = [100, 0, 50, 800, 30, 0, 0, 20, 0, 0]"

definition ticks_e1 :: "int list" where
  "ticks_e1 = [120, 0, 55, 850, 50, 0, 0, 25, 0, 0]"

text \<open>The globals after the rate loop on the snapshots stored from these two arrays.\<close>

definition rates_e :: globals where
  "rates_e =
     \<lparr> cpu_percent = [(''cpu0'', PyFloat 50)], io_wait_percent = [(''cpu0'', PyFloat 20)],
       steal_percent = [(''cpu0'', PyFloat 5)], cpu_id_list = [], ctxt_per_second = PyInt 0,
       processes_per_second = PyInt 0, cpu_stats_t1 = [] \<rparr>"

text \<open>
  The globals when one cpu line has been read and no percentage has been stored yet.
\<close>

definition listed_without_rates :: globals where
  "listed_without_rates = initial_globals\<lparr> cpu_id_list := [''cpu''] \<rparr>"

text \<open>
  Two reads in which the cpu0 line stands twice; half of the 100 ticks between them are busy.
  \<open>final_dup\<close> is what \<open>get_cpu_stats\<close> leaves.
\<close>

definition stat_dup0 :: string where
  "stat_dup0 = file_text
     [''cpu  10 0 0 90 0 0 0 0 0 0'',
      ''cpu0 10 0 0 90 0 0 0 0 0 0'',
      ''cpu0 10 0 0 90 0 0 0 0 0 0'',
      ''ctxt 5000'',
      ''processes 300'']"

definition stat_dup1 :: string where
  "stat_dup1 = file_text
     [''cpu  60 0 0 140 0 0 0 0 0 0'',
      ''cpu0 60 0 0 140 0 0 0 0 0 0'',
      ''cpu0 60 0 0 140 0 0 0 0 0 0'',
      ''ctxt 5600'',
      ''processes 310'']"

definition final_dup :: globals where
  "final_dup =
     \<lparr> cpu_percent = [(''cpu'', PyFloat 50), (''cpu0'', PyFloat 50)],
       io_wait_percent = [(''cpu'', PyFloat 0), (''cpu0'', PyFloat 0)],
       steal_percent = [(''cpu'', PyFloat 0), (''cpu0'', PyFloat 0)],
       cpu_id_list = [''cpu'', ''cpu0'', ''cpu0''],
       ctxt_per_second = PyFloat 50, processes_per_second = PyFloat 50,
       cpu_stats_t1 =
         [(''cpu'', PInt 60), (''cpuall'', PInt 200), (''cpuio_wait'', PInt 0), (''cpusteal'', PInt 0),
          (''cpu0'', PInt 60), (''cpu0all'', PInt 200), (''cpu0io_wait'', PInt 0), (''cpu0steal'', PInt 0),
          (''ctxt'', PStr ''60''), (''processes'', PStr ''60'')] \<rparr>"

section \<open>Sequencing and dictionaries\<close>

lemma seq_Inr_iff: "seq m f = Inr y \<longleftrightarrow> (\<exists>v. m = Inr v \<and> f v = Inr y)"
  by (cases m) (simp_all add: seq_def)

lemma seq_Inr [simp]: "seq (Inr v) f = f v"
  by (simp add: seq_def)

lemma seq_Inl [simp]: "seq (Inl e) f = Inl e"
  by (simp add: seq_def)

lemma map_of_dict_set: "map_of (dict_set d k v) = (map_of d)(k \<mapsto> v)"
  by (simp add: dict_set_def update_conv')

lemma dict_get_Some: "map_of d k = Some v \<Longrightarrow> dict_get d k = Inr v"
  by (simp add: dict_get_def)

lemma dict_get_None: "map_of d k = None \<Longrightarrow> dict_get d k = Inl (KeyError k)"
  by (simp add: dict_get_def)

lemma keys_dict_set: "fst ` set (dict_set d k v) = insert k (fst ` set d)"
  by (simp add: dict_set_def dom_update)


section \<open>Facts about the string primitives\<close>

lemma startswith_shorter:
  assumes "startswith s p" and "startswith s q" and "length q \<le> length p"
  shows "q = take (length q) p"
proof -
  have "take (length q) (take (length p) s) = take (length q) s"
    using assms(3) by (simp add: min_def)
  with assms(1,2) show ?thesis by (simp add: startswith_def)
qed

lemma startswith_prefix: "startswith s (p @ q) \<Longrightarrow> startswith s p"
proof -
  assume a: "startswith s (p @ q)"
  have "take (length p) (take (length (p @ q)) s) = take (length p) s"
    by (simp add: min_def)
  with a show ?thesis by (simp add: startswith_def)
qed

lemma startswith_cpu_space: "startswith l ''cpu '' \<Longrightarrow> startswith l ''cpu''"
  using startswith_prefix [of l "''cpu''" "'' ''"] by simp

lemma startswith_ctxt_not_cpu: "startswith l ''ctxt'' \<Longrightarrow> \<not> startswith l ''cpu''"
  using startswith_shorter [of l "''ctxt''" "''cpu''"] by auto

lemma startswith_processes_not_cpu: "startswith l ''processes'' \<Longrightarrow> \<not> startswith l ''cpu''"
  using startswith_shorter [of l "''processes''" "''cpu''"] by auto

lemma startswith_append:
  assumes "startswith s p"
  shows "startswith (s @ x) p"
proof -
  from assms have t: "take (length p) s = p" by (simp add: startswith_def)
  then have "length (take (length p) s) = length p" by simp
  then have "length p \<le> length s" by simp
  with t show ?thesis by (simp add: startswith_def)
qed

lemma scalar_key_not_cpu:
  assumes "startswith k ''cpu''" and "key = ''ctxt'' \<or> key = ''processes''"
  shows "k @ x \<noteq> key"
proof
  assume "k @ x = key"
  with startswith_append [OF assms(1), of x] have "startswith key ''cpu''" by simp
  with assms(2) show False by (auto simp: startswith_def)
qed

lemma py_split_cpu_aux: "py_split (''cpu'' @ r) = split_acc ''cpu'' r"
  by (simp add: py_split_def py_isspace_def)

lemma split_acc_hd:
  assumes "w \<noteq> []"
  shows "\<exists>w' rest. split_acc w s = (w @ w') # rest"
  using assms
proof (induction s arbitrary: w)
  case Nil
  then show ?case by simp
next
  case (Cons c cs)
  show ?case
  proof (cases "py_isspace c")
    case True
    with Cons.prems show ?thesis by simp
  next
    case False
    have "w @ [c] \<noteq> []" by simp
    from Cons.IH [OF this] obtain w' rest where "split_acc (w @ [c]) cs = ((w @ [c]) @ w') # rest"
      by blast
    with False have "split_acc w (c # cs) = (w @ (c # w')) # rest" by simp
    then show ?thesis by blast
  qed
qed

lemma py_split_cpu_hd:
  assumes "startswith l ''cpu''"
  shows "\<exists>w rest. py_split l = (''cpu'' @ w) # rest"
proof -
  from assms have "take 3 l = ''cpu''" by (simp add: startswith_def numeral_3_eq_3)
  then have "l = ''cpu'' @ drop 3 l" by (metis append_take_drop_id)
  then have "py_split l = split_acc ''cpu'' (drop 3 l)"
    by (metis (no_types) py_split_cpu_aux)
  then show ?thesis using split_acc_hd [of "''cpu''" "drop 3 l"] by simp
qed

lemma split_acc_no_space:
  assumes "CHR '' '' \<notin> set w"
  shows "\<forall>t \<in> set (split_acc w s). CHR '' '' \<notin> set t"
  using assms
proof (induction s arbitrary: w)
  case Nil
  then show ?case by simp
next
  case (Cons c cs)
  show ?case
  proof (cases "py_isspace c")
    case True
    with Cons.IH [of "[]"] Cons.prems show ?thesis by simp
  next
    case False
    then have "c \<noteq> CHR '' ''" by (auto simp: py_isspace_def)
    with Cons.prems have "CHR '' '' \<notin> set (w @ [c])" by simp
    from Cons.IH [OF this] False show ?thesis by simp
  qed
qed

lemma py_split_no_space: "t \<in> set (py_split s) \<Longrightarrow> CHR '' '' \<notin> set t"
  using split_acc_no_space [of "[]" s] by (simp add: py_split_def)

lemma digit_nth_no_space: "n < 10 \<Longrightarrow> ''0123456789'' ! n \<noteq> CHR '' ''"
proof -
  assume "n < 10"
  then have "''0123456789'' ! n \<in> set ''0123456789''"
    by (intro nth_mem) simp
  then show ?thesis by auto
qed

lemma show_nat_no_space: "CHR '' '' \<notin> set (show_nat n)"
proof (induction n rule: show_nat.induct)
  case (1 n)
  show ?case
  proof (cases "n < 10")
    case True
    then show ?thesis
      using digit_nth_no_space [of n] by (subst show_nat.simps) simp
  next
    case False
    have "n mod 10 < 10" by simp
    from digit_nth_no_space [OF this] "1" [OF False] False show ?thesis
      by (subst show_nat.simps) simp
  qed
qed

lemma show_int_no_space: "CHR '' '' \<notin> set (show_int i)"
  by (simp add: show_int_def show_nat_no_space)

lemma whole_repr_no_space: "CHR '' '' \<notin> set (whole_repr r)"
  by (simp add: whole_repr_def show_int_no_space)

lemma py_str_no_space:
  assumes "\<And>r. CHR '' '' \<notin> set (fmt r)"
  shows "CHR '' '' \<notin> set (py_str fmt v)"
  using assms by (cases v) (simp_all add: show_int_no_space)

lemma py_join_spaces:
  assumes "\<forall>t \<in> set ts. CHR '' '' \<notin> set t"
  shows "length (filter (\<lambda>c. c = CHR '' '') (py_join ts)) = length ts - 1"
proof -
  have none: "filter (\<lambda>c. c = CHR '' '') x = []" if "CHR '' '' \<notin> set x" for x
    using that by (induction x) auto
  from assms show ?thesis
    by (induction ts rule: py_join.induct) (simp_all add: none)
qed


section \<open>The line loop\<close>

lemma pad_ticks_replicate: "pad_ticks a = a @ replicate (10 - length a) 0"
proof (induction a rule: pad_ticks.induct)
  case (1 a)
  show ?case
  proof (cases "length a < 10")
    case True
    then have "10 - length a = Suc (10 - length (a @ [0]))" by simp
    then have "a @ replicate (10 - length a) 0 = (a @ [0]) @ replicate (10 - length (a @ [0])) 0"
      by (simp only: replicate_Suc append_assoc append_Cons append_Nil)
    with "1" [OF True] True show ?thesis
      by (subst pad_ticks.simps) simp
  next
    case False
    then show ?thesis by (subst pad_ticks.simps) simp
  qed
qed

lemma int_ticks_Inl: "int_ticks ts = Inl e \<Longrightarrow> e = ValueError"
  by (induction ts arbitrary: e) (auto split: option.splits sum.splits)

lemma int_ticks_bad:
  assumes "tok \<in> set ts" and "py_int tok = None"
  shows "int_ticks ts = Inl ValueError"
  using assms
proof (induction ts)
  case Nil
  then show ?case by simp
next
  case (Cons t ts)
  show ?case
  proof (cases "py_int t")
    case None
    then show ?thesis by simp
  next
    case (Some v)
    with Cons.prems have "tok \<in> set ts" by auto
    from Cons.IH [OF this Cons.prems(2)] Some show ?thesis by simp
  qed
qed

lemma procstat_line_cpu:
  assumes "startswith l ''cpu''"
  shows "procstat_line st l = cpu_line st (py_split l)"
  using assms by (simp add: procstat_line_def)

lemma procstat_line_ignored: "ignored_line l \<Longrightarrow> procstat_line st l = Inr st"
  using startswith_cpu_space [of l] by (auto simp: procstat_line_def ignored_line_def)

lemma procstat_line_scalar_unbound:
  assumes "parts st = None" and "startswith l ''ctxt'' \<or> startswith l ''processes''"
  shows "procstat_line st l = Inl UnboundLocalError"
  using assms startswith_cpu_space [of l] startswith_ctxt_not_cpu [of l]
    startswith_processes_not_cpu [of l]
  by (auto simp: procstat_line_def scalar_line_def)

lemma procstat_loop_scalar_first:
  assumes "parts st = None"
      and "dropWhile ignored_line ls = l # rest"
      and "startswith l ''ctxt'' \<or> startswith l ''processes''"
  shows "procstat_loop st ls = Inl UnboundLocalError"
  using assms
proof (induction ls)
  case Nil
  then show ?case by simp
next
  case (Cons x xs)
  show ?case
  proof (cases "ignored_line x")
    case True
    with Cons show ?thesis by (simp add: procstat_line_ignored)
  next
    case False
    with Cons.prems have "x = l" by simp
    with Cons.prems show ?thesis by (simp add: procstat_line_scalar_unbound)
  qed
qed

lemma cpu_line_padded:
  assumes "int_ticks toks = Inr ticks" and "length ticks \<le> 10"
  shows "cpu_line st (cpu_id # toks) =
           Inr \<lparr> parts = Some (cpu_id # toks),
                 cpu_stats = store_ticks (cpu_stats st) cpu_id (ticks @ replicate (10 - length ticks) 0),
                 id_list = id_list st @ [cpu_id] \<rparr>"
  using assms by (simp add: cpu_line_def pad_ticks_replicate)

lemma cpu_line_bad_token:
  assumes "tok \<in> set (tl p)" and "py_int tok = None"
  shows "cpu_line st p = Inl ValueError"
  using assms int_ticks_bad [of tok "tl p"]
  by (cases p) (simp_all add: cpu_line_def)

lemma procstat_loop_failing_line:
  assumes "l \<in> set ls" and "\<And>s. \<exists>e. procstat_line s l = Inl e"
  shows "\<exists>e. procstat_loop st ls = Inl e"
  using assms(1)
proof (induction ls arbitrary: st)
  case Nil
  then show ?case by simp
next
  case (Cons x xs)
  show ?case
  proof (cases "procstat_line st x")
    case (Inl e)
    then show ?thesis by simp
  next
    case (Inr s1)
    with assms(2) [of st] have "x \<noteq> l" by auto
    with Cons.prems have "l \<in> set xs" by simp
    from Cons.IH [OF this, of s1] Inr show ?thesis by simp
  qed
qed

lemma cpu_line_Inr:
  assumes "cpu_line st p = Inr st'"
  obtains k toks a where "p = k # toks"
    and "st' = \<lparr> parts = Some p, cpu_stats = store_ticks (cpu_stats st) k a, id_list = id_list st @ [k] \<rparr>"
  using assms
  by (cases p) (auto simp: cpu_line_def seq_Inr_iff Let_def split: if_splits)

lemma scalar_line_Inr:
  assumes "scalar_line st key = Inr st'"
  obtains v where "st' = st\<lparr> cpu_stats := dict_set (cpu_stats st) key (PStr v) \<rparr>"
  using assms by (auto simp: scalar_line_def split: option.splits if_splits)

lemma cpu_line_id_list:
  assumes "cpu_line st p = Inr st'"
  shows "id_list st' = id_list st @ [hd p]"
  using assms
  by (cases p) (auto simp: cpu_line_def seq_Inr_iff Let_def split: if_splits)

lemma scalar_line_id_list:
  assumes "scalar_line st key = Inr st'"
  shows "id_list st' = id_list st"
  using assms by (auto simp: scalar_line_def split: option.splits if_splits)

lemma procstat_line_id_list:
  assumes "procstat_line st l = Inr st'"
  shows "id_list st' = id_list st @ (if startswith l ''cpu'' then [hd (py_split l)] else [])"
  using assms startswith_cpu_space [of l] cpu_line_id_list [of st "py_split l" st']
    scalar_line_id_list [of st _ st']
  by (auto simp: procstat_line_def split: if_splits)

lemma procstat_loop_id_list:
  assumes "procstat_loop st ls = Inr st'"
  shows "id_list st' = id_list st @ map (\<lambda>l. hd (py_split l)) (filter (\<lambda>l. startswith l ''cpu'') ls)"
  using assms
proof (induction ls arbitrary: st)
  case Nil
  then show ?case by simp
next
  case (Cons l ls)
  from Cons.prems obtain s1 where
    a: "procstat_line st l = Inr s1" and b: "procstat_loop s1 ls = Inr st'"
    by (auto split: sum.splits)
  from Cons.IH [OF b] procstat_line_id_list [OF a] show ?case by simp
qed

lemma get_procstat_now_id_list:
  assumes "get_procstat_now text = Inr (d, ks)"
  shows "ks = map (\<lambda>l. hd (py_split l)) (filter (\<lambda>l. startswith l ''cpu'') (split_nl text))"
  using assms procstat_loop_id_list [of "\<lparr> parts = None, cpu_stats = [], id_list = [] \<rparr>" "split_nl text"]
  by (auto simp: get_procstat_now_def split: sum.splits)

lemma cpu_line_ids_no_space:
  assumes "cpu_line st p = Inr st'" and "set p \<subseteq> {t. CHR '' '' \<notin> set t}"
      and "\<forall>k \<in> set (id_list st). CHR '' '' \<notin> set k"
  shows "\<forall>k \<in> set (id_list st'). CHR '' '' \<notin> set k"
  using assms
  by (cases p) (auto simp: cpu_line_def seq_Inr_iff Let_def split: if_splits)

lemma procstat_line_ids_no_space:
  assumes "procstat_line st l = Inr st'" and "\<forall>k \<in> set (id_list st). CHR '' '' \<notin> set k"
  shows "\<forall>k \<in> set (id_list st'). CHR '' '' \<notin> set k"
proof -
  have p: "set (py_split l) \<subseteq> {t. CHR '' '' \<notin> set t}"
    using py_split_no_space [of _ l] by auto
  show ?thesis
    using assms cpu_line_ids_no_space [OF _ p assms(2), of st'] scalar_line_id_list [of st _ st']
    by (auto simp: procstat_line_def split: if_splits)
qed

lemma procstat_loop_ids_no_space:
  assumes "procstat_loop st ls = Inr st'" and "\<forall>k \<in> set (id_list st). CHR '' '' \<notin> set k"
  shows "\<forall>k \<in> set (id_list st'). CHR '' '' \<notin> set k"
  using assms
proof (induction ls arbitrary: st)
  case Nil
  then show ?case by simp
next
  case (Cons l ls)
  from Cons.prems(1) obtain s1 where
    a: "procstat_line st l = Inr s1" and b: "procstat_loop s1 ls = Inr st'"
    by (auto split: sum.splits)
  from Cons.IH [OF b procstat_line_ids_no_space [OF a Cons.prems(2)]] show ?case .
qed

lemma get_procstat_now_ids_no_space:
  assumes "get_procstat_now text = Inr (d, ks)" and "k \<in> set ks"
  shows "CHR '' '' \<notin> set k"
  using assms procstat_loop_ids_no_space [of "\<lparr> parts = None, cpu_stats = [], id_list = [] \<rparr>" "split_nl text"]
  by (auto simp: get_procstat_now_def split: sum.splits)


section \<open>What a snapshot holds\<close>

lemma store_ticks_entry:
  assumes "length a = 10"
  shows "snapshot_entry (store_ticks d k a) k a"
  using assms by (simp add: snapshot_entry_def store_ticks_def Let_def map_of_dict_set)

lemma procstat_line_entry:
  assumes "startswith l ''cpu''" and "py_split l = k # toks" and "int_ticks toks = Inr ticks"
      and "length ticks \<le> 10"
  shows "\<exists>st'. procstat_line st l = Inr st'
               \<and> snapshot_entry (cpu_stats st') k (ticks @ replicate (10 - length ticks) 0)"
  using assms store_ticks_entry [of "ticks @ replicate (10 - length ticks) 0" "cpu_stats st" k]
  by (simp add: procstat_line_def cpu_line_def pad_ticks_replicate)

lemma keys_store_ticks:
  "fst ` set (store_ticks d k a) = fst ` set d \<union> {k, k @ ''all'', k @ ''io_wait'', k @ ''steal''}"
  by (auto simp: store_ticks_def Let_def keys_dict_set)

lemma snapshot_keys_append:
  "snapshot_keys (ks @ [k]) = snapshot_keys ks \<union> {k, k @ ''all'', k @ ''io_wait'', k @ ''steal''}"
  by (auto simp: snapshot_keys_def)

lemma int_at_dict_set_int: "int_at d k \<or> k = k' \<Longrightarrow> int_at (dict_set d k' (PInt v)) k"
  by (auto simp: int_at_def map_of_dict_set)

lemma int_at_dict_set_other: "k \<noteq> k' \<Longrightarrow> int_at (dict_set d k' v) k = int_at d k"
  by (simp add: int_at_def map_of_dict_set)

lemma int_at_store_ticks: "int_at d k \<Longrightarrow> int_at (store_ticks d k' a) k"
  by (simp add: store_ticks_def Let_def int_at_dict_set_int)

lemma has_entry_store_ticks: "has_entry d k \<or> k = k' \<Longrightarrow> has_entry (store_ticks d k' a) k"
  by (auto simp: has_entry_def int_at_store_ticks)
     (simp_all add: store_ticks_def Let_def int_at_dict_set_int)

lemma has_entry_ints:
  assumes "has_entry d k"
  obtains u t w s where "map_of d k = Some (PInt u)" and "map_of d (k @ ''all'') = Some (PInt t)"
    and "map_of d (k @ ''io_wait'') = Some (PInt w)" and "map_of d (k @ ''steal'') = Some (PInt s)"
  using assms
  by (auto simp: has_entry_def int_at_def split: option.splits pyval.splits)

lemma cpu_line_inv:
  assumes "cpu_line st p = Inr st'" and "startswith (hd p) ''cpu''" and "snapshot_inv st"
  shows "snapshot_inv st'"
proof -
  from assms(1) obtain k toks a where p: "p = k # toks"
    and st': "st' = \<lparr> parts = Some p, cpu_stats = store_ticks (cpu_stats st) k a, id_list = id_list st @ [k] \<rparr>"
    by (rule cpu_line_Inr)
  from assms(2) p have k: "startswith k ''cpu''" by simp
  have "has_entry (cpu_stats st') k'" if "k' \<in> set (id_list st')" for k'
    using that assms(3) st' has_entry_store_ticks [of "cpu_stats st" k' k a]
    by (auto simp: snapshot_inv_def)
  moreover have "startswith k' ''cpu''" if "k' \<in> set (id_list st')" for k'
    using that assms(3) st' k by (auto simp: snapshot_inv_def)
  moreover have "fst ` set (cpu_stats st') \<subseteq> snapshot_keys (id_list st')"
    using assms(3) st' by (auto simp: snapshot_inv_def keys_store_ticks snapshot_keys_append)
  ultimately show ?thesis by (simp add: snapshot_inv_def)
qed

lemma scalar_line_inv:
  assumes "scalar_line st key = Inr st'" and "key = ''ctxt'' \<or> key = ''processes''"
      and "snapshot_inv st"
  shows "snapshot_inv st'"
proof -
  from assms(1) obtain v where st': "st' = st\<lparr> cpu_stats := dict_set (cpu_stats st) key (PStr v) \<rparr>"
    by (rule scalar_line_Inr)
  have "has_entry (cpu_stats st') k" if "k \<in> set (id_list st)" for k
  proof -
    from that assms(3) have c: "startswith k ''cpu''" and e: "has_entry (cpu_stats st) k"
      by (auto simp: snapshot_inv_def)
    from scalar_key_not_cpu [OF c assms(2), of "[]"] scalar_key_not_cpu [OF c assms(2)] e st'
    show ?thesis by (simp add: has_entry_def int_at_dict_set_other)
  qed
  moreover have "fst ` set (cpu_stats st') \<subseteq> snapshot_keys (id_list st')"
    using assms(2,3) st' by (auto simp: snapshot_inv_def keys_dict_set snapshot_keys_def)
  ultimately show ?thesis using assms(3) st' by (simp add: snapshot_inv_def)
qed

lemma procstat_line_inv:
  assumes "procstat_line st l = Inr st'" and "snapshot_inv st"
  shows "snapshot_inv st'"
proof (cases "startswith l ''cpu''")
  case True
  then obtain w rest where "py_split l = (''cpu'' @ w) # rest"
    using py_split_cpu_hd by blast
  then have "startswith (hd (py_split l)) ''cpu''" by (simp add: startswith_def)
  with assms True show ?thesis
    using cpu_line_inv [of st "py_split l" st'] by (simp add: procstat_line_cpu)
next
  case False
  then have "\<not> startswith l ''cpu ''" using startswith_cpu_space by blast
  with False assms show ?thesis
    using scalar_line_inv [of st _ st'] by (auto simp: procstat_line_def split: if_splits)
qed

lemma procstat_loop_inv:
  assumes "procstat_loop st ls = Inr st'" and "snapshot_inv st"
  shows "snapshot_inv st'"
  using assms
proof (induction ls arbitrary: st)
  case Nil
  then show ?case by simp
next
  case (Cons l ls)
  from Cons.prems(1) obtain s1 where
    a: "procstat_line st l = Inr s1" and b: "procstat_loop s1 ls = Inr st'"
    by (auto split: sum.splits)
  from Cons.IH [OF b procstat_line_inv [OF a Cons.prems(2)]] show ?case .
qed

lemma get_procstat_now_inv:
  assumes "get_procstat_now text = Inr (d, ks)"
  shows "(\<forall>k \<in> set ks. startswith k ''cpu'' \<and> has_entry d k) \<and> fst ` set d \<subseteq> snapshot_keys ks"
proof -
  have i: "snapshot_inv \<lparr> parts = None, cpu_stats = [], id_list = [] \<rparr>"
    by (simp add: snapshot_inv_def)
  from assms obtain st where l: "procstat_loop \<lparr> parts = None, cpu_stats = [], id_list = [] \<rparr> (split_nl text) = Inr st"
    and d: "d = cpu_stats st" "ks = id_list st"
    by (auto simp: get_procstat_now_def split: sum.splits)
  from procstat_loop_inv [OF l i] d show ?thesis by (simp add: snapshot_inv_def)
qed

text \<open>Every string stored under a scalar key has been accepted by \<open>int()\<close>.\<close>

lemma int_ticks_Inr_all:
  assumes "int_ticks ts = Inr vs" and "t \<in> set ts"
  shows "py_int t \<noteq> None"
  using assms
  by (induction ts arbitrary: vs) (auto split: option.splits sum.splits)

lemma cpu_line_scalars:
  assumes "cpu_line st p = Inr st'"
      and "\<forall>k s. map_of (cpu_stats st) k = Some (PStr s) \<longrightarrow> py_int s \<noteq> None"
  shows "(\<forall>k s. map_of (cpu_stats st') k = Some (PStr s) \<longrightarrow> py_int s \<noteq> None)
         \<and> (\<forall>q. parts st' = Some q \<longrightarrow> (\<forall>t \<in> set (tl q). py_int t \<noteq> None))"
proof -
  from assms(1) obtain k toks a where p: "p = k # toks"
    and st': "st' = \<lparr> parts = Some p, cpu_stats = store_ticks (cpu_stats st) k a, id_list = id_list st @ [k] \<rparr>"
    by (rule cpu_line_Inr)
  from assms(1) p obtain vs where "int_ticks toks = Inr vs"
    by (auto simp: cpu_line_def seq_Inr_iff)
  then have "\<forall>t \<in> set toks. py_int t \<noteq> None"
    using int_ticks_Inr_all by blast
  moreover have "py_int s \<noteq> None" if "map_of (store_ticks (cpu_stats st) k a) k' = Some (PStr s)" for k' s
    using that assms(2)
    by (auto simp: store_ticks_def Let_def map_of_dict_set split: if_splits)
  ultimately show ?thesis using st' p by simp
qed

lemma scalar_line_scalars:
  assumes "scalar_line st key = Inr st'"
      and "\<forall>k s. map_of (cpu_stats st) k = Some (PStr s) \<longrightarrow> py_int s \<noteq> None"
      and "\<forall>q. parts st = Some q \<longrightarrow> (\<forall>t \<in> set (tl q). py_int t \<noteq> None)"
  shows "(\<forall>k s. map_of (cpu_stats st') k = Some (PStr s) \<longrightarrow> py_int s \<noteq> None)
         \<and> (\<forall>q. parts st' = Some q \<longrightarrow> (\<forall>t \<in> set (tl q). py_int t \<noteq> None))"
proof -
  from assms(1) obtain q where q: "parts st = Some q" "1 < length q"
    and st': "st' = st\<lparr> cpu_stats := dict_set (cpu_stats st) key (PStr (q ! 1)) \<rparr>"
    by (auto simp: scalar_line_def split: option.splits if_splits)
  from q(2) have "q ! 1 \<in> set (tl q)"
    by (cases q) (auto simp: nth_Cons')
  with assms(3) q(1) have "py_int (q ! 1) \<noteq> None" by blast
  with assms(2,3) st' show ?thesis
    by (auto simp: map_of_dict_set split: if_splits)
qed

lemma procstat_line_scalars:
  assumes "procstat_line st l = Inr st'"
      and "\<forall>k s. map_of (cpu_stats st) k = Some (PStr s) \<longrightarrow> py_int s \<noteq> None"
      and "\<forall>q. parts st = Some q \<longrightarrow> (\<forall>t \<in> set (tl q). py_int t \<noteq> None)"
  shows "(\<forall>k s. map_of (cpu_stats st') k = Some (PStr s) \<longrightarrow> py_int s \<noteq> None)
         \<and> (\<forall>q. parts st' = Some q \<longrightarrow> (\<forall>t \<in> set (tl q). py_int t \<noteq> None))"
  using assms cpu_line_scalars [of st "py_split l" st'] scalar_line_scalars [of st _ st']
  unfolding procstat_line_def
  by (auto split: if_splits)

lemma procstat_loop_scalars:
  assumes "procstat_loop st ls = Inr st'"
      and "\<forall>k s. map_of (cpu_stats st) k = Some (PStr s) \<longrightarrow> py_int s \<noteq> None"
      and "\<forall>q. parts st = Some q \<longrightarrow> (\<forall>t \<in> set (tl q). py_int t \<noteq> None)"
  shows "\<forall>k s. map_of (cpu_stats st') k = Some (PStr s) \<longrightarrow> py_int s \<noteq> None"
  using assms
proof (induction ls arbitrary: st)
  case Nil
  then show ?case by simp
next
  case (Cons l ls)
  from Cons.prems(1) obtain s1 where
    a: "procstat_line st l = Inr s1" and b: "procstat_loop s1 ls = Inr st'"
    by (auto split: sum.splits)
  from procstat_line_scalars [OF a Cons.prems(2,3)] Cons.IH [OF b] show ?case by blast
qed

lemma procstat_scalars_int:
  assumes "get_procstat_now text = Inr (d, ks)" and "map_of d key = Some (PStr s)"
  shows "py_int s \<noteq> None"
proof -
  from assms(1) obtain st where l: "procstat_loop \<lparr> parts = None, cpu_stats = [], id_list = [] \<rparr> (split_nl text) = Inr st"
    and d: "d = cpu_stats st"
    by (auto simp: get_procstat_now_def split: sum.splits)
  from procstat_loop_scalars [OF l] d assms(2) show ?thesis by simp
qed

lemma snapshot_value_float:
  assumes "get_procstat_now procstat_text = Inr (d, ks)" and "map_of d key = Some v"
  shows "\<exists>x. py_float v = Inr x"
proof (cases v)
  case (PInt i)
  then show ?thesis by simp
next
  case (PStr s)
  with procstat_scalars_int [OF assms(1), of key s] assms(2) show ?thesis by auto
qed

lemma all_key_not_id:
  assumes "startswith k ''cpu''" and "cpu_id_ok k0"
  shows "k @ ''all'' \<noteq> k0"
proof
  assume e: "k @ ''all'' = k0"
  from assms(1) have "take 3 k = ''cpu''" by (simp add: startswith_def numeral_3_eq_3)
  then have "length (take 3 k) = 3" by simp
  then have "3 \<le> length k" by simp
  then have "drop 3 (k @ ''all'') = drop 3 k @ ''all''" by simp
  with e assms(2) have "list_all is_digit (drop 3 k @ ''all'')" by (simp add: cpu_id_ok_def)
  then show False by (simp add: is_digit_def)
qed

lemma all_key_not_io_wait: "k @ ''all'' \<noteq> k0 @ ''io_wait''"
proof
  assume "k @ ''all'' = k0 @ ''io_wait''"
  then have "last (k @ ''all'') = last (k0 @ ''io_wait'')" by simp
  then show False by simp
qed

lemma all_key_not_steal: "k @ ''all'' \<noteq> k0 @ ''steal''"
proof
  assume "k @ ''all'' = k0 @ ''steal''"
  then have "take 2 (rev (k @ ''all'')) = take 2 (rev (k0 @ ''steal''))" by simp
  then show False by simp
qed

lemma all_key_not_in_snapshot_keys:
  assumes "startswith k ''cpu''" and "k \<notin> set ks0" and "list_all cpu_id_ok ks0"
  shows "k @ ''all'' \<notin> snapshot_keys ks0"
proof -
  have "k @ ''all'' \<noteq> ''ctxt''" "k @ ''all'' \<noteq> ''processes''"
    using scalar_key_not_cpu [OF assms(1), of _ "''all''"] by simp_all
  moreover have "k @ ''all'' \<notin> {k0, k0 @ ''all'', k0 @ ''io_wait'', k0 @ ''steal''}" if "k0 \<in> set ks0" for k0
  proof -
    from that assms(3) have "cpu_id_ok k0" by (simp add: list_all_iff)
    from all_key_not_id [OF assms(1) this] all_key_not_io_wait [of k k0] all_key_not_steal [of k k0]
      that assms(2)
    show ?thesis by auto
  qed
  ultimately show ?thesis by (auto simp: snapshot_keys_def)
qed

lemma snapshot_d0: "get_procstat_now stat_d0 = Inr (snap_d0, [''cpu''])"
  by code_simp

lemma snapshot_d1: "get_procstat_now stat_d1 = Inr (snap_d1, [''cpu''])"
  by code_simp


section \<open>The rate loop\<close>

lemma cpu_rates_step_frame:
  assumes "cpu_rates_step t0 t1 g k = Inr g'"
  shows "\<exists>c w s. g' = g\<lparr> cpu_percent := dict_set (cpu_percent g) k c,
                          io_wait_percent := dict_set (io_wait_percent g) k w,
                          steal_percent := dict_set (steal_percent g) k s \<rparr>"
  using assms unfolding cpu_rates_step_def
  by (auto simp: seq_Inr_iff split: if_splits)

lemma cpu_rates_step_ints:
  assumes "map_of t1 (k @ ''all'') = Some (PInt T1)" and "map_of t0 (k @ ''all'') = Some (PInt T0)"
      and "map_of t1 k = Some (PInt U1)" and "map_of t0 k = Some (PInt U0)"
      and "map_of t1 (k @ ''io_wait'') = Some (PInt W1)" and "map_of t0 (k @ ''io_wait'') = Some (PInt W0)"
      and "map_of t1 (k @ ''steal'') = Some (PInt S1)" and "map_of t0 (k @ ''steal'') = Some (PInt S0)"
  shows "cpu_rates_step t0 t1 g k =
           Inr (g\<lparr> cpu_percent := dict_set (cpu_percent g) k (rate_of (U1 - U0) (T1 - T0)),
                    io_wait_percent := dict_set (io_wait_percent g) k (rate_of (W1 - W0) (T1 - T0)),
                    steal_percent := dict_set (steal_percent g) k (rate_of (S1 - S0) (T1 - T0)) \<rparr>)"
  using assms by (simp add: cpu_rates_step_def dict_get_Some rate_of_def)

lemma cpu_rates_step_keeps:
  assumes st: "cpu_rates_step t0 t1 g k' = Inr g'"
      and e: "map_of t1 (k @ ''all'') = Some (PInt T1)" "map_of t0 (k @ ''all'') = Some (PInt T0)"
             "map_of t1 k = Some (PInt U1)" "map_of t0 k = Some (PInt U0)"
             "map_of t1 (k @ ''io_wait'') = Some (PInt W1)" "map_of t0 (k @ ''io_wait'') = Some (PInt W0)"
             "map_of t1 (k @ ''steal'') = Some (PInt S1)" "map_of t0 (k @ ''steal'') = Some (PInt S0)"
      and pre: "k' = k \<or>
                (map_of (cpu_percent g) k = Some (rate_of (U1 - U0) (T1 - T0))
                 \<and> map_of (io_wait_percent g) k = Some (rate_of (W1 - W0) (T1 - T0))
                 \<and> map_of (steal_percent g) k = Some (rate_of (S1 - S0) (T1 - T0)))"
  shows "map_of (cpu_percent g') k = Some (rate_of (U1 - U0) (T1 - T0))
         \<and> map_of (io_wait_percent g') k = Some (rate_of (W1 - W0) (T1 - T0))
         \<and> map_of (steal_percent g') k = Some (rate_of (S1 - S0) (T1 - T0))"
proof (cases "k' = k")
  case True
  with st cpu_rates_step_ints [OF e, of g] show ?thesis
    by (auto simp: map_of_dict_set)
next
  case False
  with pre cpu_rates_step_frame [OF st] show ?thesis
    by (auto simp: map_of_dict_set)
qed

lemma cpu_rates_loop_value:
  assumes "cpu_rates_loop t0 t1 g ks = Inr g'"
      and e: "map_of t1 (k @ ''all'') = Some (PInt T1)" "map_of t0 (k @ ''all'') = Some (PInt T0)"
             "map_of t1 k = Some (PInt U1)" "map_of t0 k = Some (PInt U0)"
             "map_of t1 (k @ ''io_wait'') = Some (PInt W1)" "map_of t0 (k @ ''io_wait'') = Some (PInt W0)"
             "map_of t1 (k @ ''steal'') = Some (PInt S1)" "map_of t0 (k @ ''steal'') = Some (PInt S0)"
      and "k \<in> set ks \<or>
                (map_of (cpu_percent g) k = Some (rate_of (U1 - U0) (T1 - T0))
                 \<and> map_of (io_wait_percent g) k = Some (rate_of (W1 - W0) (T1 - T0))
                 \<and> map_of (steal_percent g) k = Some (rate_of (S1 - S0) (T1 - T0)))"
  shows "map_of (cpu_percent g') k = Some (rate_of (U1 - U0) (T1 - T0))
         \<and> map_of (io_wait_percent g') k = Some (rate_of (W1 - W0) (T1 - T0))
         \<and> map_of (steal_percent g') k = Some (rate_of (S1 - S0) (T1 - T0))"
  using assms(1,10)
proof (induction ks arbitrary: g)
  case Nil
  then show ?case by simp
next
  case (Cons k' ks)
  from Cons.prems(1) obtain g1 where
    s1: "cpu_rates_step t0 t1 g k' = Inr g1" and l1: "cpu_rates_loop t0 t1 g1 ks = Inr g'"
    by (auto split: sum.splits)
  show ?case
  proof (cases "k' = k \<or> k \<notin> set ks")
    case True
    with Cons.prems(2) have "k' = k \<or>
                (map_of (cpu_percent g) k = Some (rate_of (U1 - U0) (T1 - T0))
                 \<and> map_of (io_wait_percent g) k = Some (rate_of (W1 - W0) (T1 - T0))
                 \<and> map_of (steal_percent g) k = Some (rate_of (S1 - S0) (T1 - T0)))"
      by auto
    from cpu_rates_step_keeps [OF s1 e this] Cons.IH [OF l1] show ?thesis by blast
  next
    case False
    then have "k \<in> set ks" by simp
    with Cons.IH [OF l1] show ?thesis by blast
  qed
qed

lemma cpu_rates_step_has_rates:
  assumes "cpu_rates_step t0 t1 g k' = Inr g'" and "k' = k \<or> has_rates g k"
  shows "has_rates g' k"
  using cpu_rates_step_frame [OF assms(1)] assms(2)
  by (auto simp: has_rates_def map_of_dict_set)

lemma cpu_rates_step_id_list:
  assumes "cpu_rates_step t0 t1 g k = Inr g'"
  shows "cpu_id_list g' = cpu_id_list g"
  using cpu_rates_step_frame [OF assms] by auto

lemma cpu_rates_loop_has_rates:
  assumes "cpu_rates_loop t0 t1 g ks = Inr g'" and "k \<in> set ks \<or> has_rates g k"
  shows "has_rates g' k"
  using assms
proof (induction ks arbitrary: g)
  case Nil
  then show ?case by simp
next
  case (Cons k' ks)
  from Cons.prems(1) obtain g1 where
    s1: "cpu_rates_step t0 t1 g k' = Inr g1" and l1: "cpu_rates_loop t0 t1 g1 ks = Inr g'"
    by (auto split: sum.splits)
  from Cons.prems(2) have "k \<in> set ks \<or> (k' = k \<or> has_rates g k)" by auto
  then have "k \<in> set ks \<or> has_rates g1 k"
    using cpu_rates_step_has_rates [OF s1] by blast
  from Cons.IH [OF l1 this] show ?case .
qed

lemma cpu_rates_loop_id_list:
  assumes "cpu_rates_loop t0 t1 g ks = Inr g'"
  shows "cpu_id_list g' = cpu_id_list g"
  using assms
proof (induction ks arbitrary: g)
  case Nil
  then show ?case by simp
next
  case (Cons k' ks)
  from Cons.prems(1) obtain g1 where
    s1: "cpu_rates_step t0 t1 g k' = Inr g1" and l1: "cpu_rates_loop t0 t1 g1 ks = Inr g'"
    by (auto split: sum.splits)
  from Cons.IH [OF l1] cpu_rates_step_id_list [OF s1] show ?case by simp
qed

lemma cpu_rates_step_entries:
  assumes "has_entry t0 k" and "has_entry t1 k"
  shows "\<exists>g'. cpu_rates_step t0 t1 g k = Inr g'"
proof -
  from assms(1) obtain u0 a0 w0 s0 where
    e0: "map_of t0 k = Some (PInt u0)" "map_of t0 (k @ ''all'') = Some (PInt a0)"
        "map_of t0 (k @ ''io_wait'') = Some (PInt w0)" "map_of t0 (k @ ''steal'') = Some (PInt s0)"
    by (rule has_entry_ints)
  from assms(2) obtain u1 a1 w1 s1 where
    e1: "map_of t1 k = Some (PInt u1)" "map_of t1 (k @ ''all'') = Some (PInt a1)"
        "map_of t1 (k @ ''io_wait'') = Some (PInt w1)" "map_of t1 (k @ ''steal'') = Some (PInt s1)"
    by (rule has_entry_ints)
  from cpu_rates_step_ints [OF e1(2) e0(2) e1(1) e0(1) e1(3) e0(3) e1(4) e0(4), of g]
  show ?thesis by blast
qed

lemma cpu_rates_loop_entries:
  assumes "\<forall>k \<in> set ks. has_entry t0 k \<and> has_entry t1 k"
  shows "\<exists>g'. cpu_rates_loop t0 t1 g ks = Inr g'"
  using assms
proof (induction ks arbitrary: g)
  case Nil
  then show ?case by simp
next
  case (Cons k ks)
  from Cons.prems cpu_rates_step_entries [of t0 k t1 g] obtain g1 where
    s: "cpu_rates_step t0 t1 g k = Inr g1" by auto
  from Cons.prems have "\<forall>k \<in> set ks. has_entry t0 k \<and> has_entry t1 k" by simp
  from Cons.IH [OF this, of g1] s show ?case by simp
qed

lemma cpu_rates_step_missing:
  assumes "has_entry t1 k" and "map_of t0 (k @ ''all'') = None"
  shows "cpu_rates_step t0 t1 g k = Inl (KeyError (k @ ''all''))"
proof -
  from assms(1) obtain u1 a1 w1 s1 where "map_of t1 (k @ ''all'') = Some (PInt a1)"
    by (rule has_entry_ints)
  with assms(2) show ?thesis
    by (simp add: cpu_rates_step_def dict_get_Some dict_get_None)
qed

lemma cpu_rates_loop_missing:
  assumes "\<forall>k \<in> set ks. has_entry t1 k"
      and "\<forall>k \<in> set ks. if k \<in> K0 then has_entry t0 k else map_of t0 (k @ ''all'') = None"
      and "\<exists>k \<in> set ks. k \<notin> K0"
  shows "\<exists>k \<in> set ks. k \<notin> K0 \<and> cpu_rates_loop t0 t1 g ks = Inl (KeyError (k @ ''all''))"
  using assms
proof (induction ks arbitrary: g)
  case Nil
  then show ?case by simp
next
  case (Cons k ks)
  show ?case
  proof (cases "k \<in> K0")
    case True
    with Cons.prems have "has_entry t0 k" and "has_entry t1 k" by auto
    from cpu_rates_step_entries [OF this, of g] obtain g1 where
      s: "cpu_rates_step t0 t1 g k = Inr g1" by blast
    from Cons.prems True have
      "\<forall>k \<in> set ks. has_entry t1 k"
      "\<forall>k \<in> set ks. if k \<in> K0 then has_entry t0 k else map_of t0 (k @ ''all'') = None"
      "\<exists>k \<in> set ks. k \<notin> K0"
      by auto
    from Cons.IH [OF this, of g1] s show ?thesis by auto
  next
    case False
    with Cons.prems have "has_entry t1 k" and "map_of t0 (k @ ''all'') = None" by auto
    from cpu_rates_step_missing [OF this, of g] False show ?thesis by simp
  qed
qed

lemma get_cpu_stats_Inr:
  assumes "get_cpu_stats cfg g0 text0 text1 = Inr g"
  shows "\<exists>t0 ks0 t1 ks1 g1.
           get_procstat_now text0 = Inr (t0, ks0) \<and> get_procstat_now text1 = Inr (t1, ks1)
           \<and> cpu_rates_loop t0 t1 (g0\<lparr> cpu_id_list := ks1, cpu_stats_t1 := t1 \<rparr>) ks1 = Inr g1
           \<and> cpu_id_list g = ks1 \<and> cpu_percent g = cpu_percent g1
           \<and> io_wait_percent g = io_wait_percent g1 \<and> steal_percent g = steal_percent g1"
proof -
  from assms obtain t0 ks0 where p0: "get_procstat_now text0 = Inr (t0, ks0)"
    and r0: "(if sample_period cfg < 0 then Inl ValueError
       else
         seq (get_procstat_now text1) (\<lambda>(t1, ids1).
         seq (cpu_rates_loop t0 t1 (g0\<lparr> cpu_id_list := ids1, cpu_stats_t1 := t1 \<rparr>) ids1) (\<lambda>g1.
         seq (scalar_rate t0 t1 ''ctxt'' (sample_period cfg)) (\<lambda>c.
         seq (scalar_rate t0 t1 ''processes'' (sample_period cfg)) (\<lambda>p.
           Inr (g1\<lparr> ctxt_per_second := c, processes_per_second := p \<rparr>)))))) = Inr g"
    unfolding get_cpu_stats_def by (auto simp: seq_Inr_iff)
  from r0 obtain t1 ks1 where p1: "get_procstat_now text1 = Inr (t1, ks1)"
    and r1: "seq (cpu_rates_loop t0 t1 (g0\<lparr> cpu_id_list := ks1, cpu_stats_t1 := t1 \<rparr>) ks1) (\<lambda>g1.
         seq (scalar_rate t0 t1 ''ctxt'' (sample_period cfg)) (\<lambda>c.
         seq (scalar_rate t0 t1 ''processes'' (sample_period cfg)) (\<lambda>p.
           Inr (g1\<lparr> ctxt_per_second := c, processes_per_second := p \<rparr>)))) = Inr g"
    by (auto simp: seq_Inr_iff split: if_splits)
  from r1 obtain g1 c p where l: "cpu_rates_loop t0 t1 (g0\<lparr> cpu_id_list := ks1, cpu_stats_t1 := t1 \<rparr>) ks1 = Inr g1"
    and g: "g = g1\<lparr> ctxt_per_second := c, processes_per_second := p \<rparr>"
    by (auto simp: seq_Inr_iff)
  from cpu_rates_loop_id_list [OF l] g have "cpu_id_list g = ks1" by simp
  with p0 p1 l g show ?thesis by auto
qed

text \<open>
  When both reads parse, the second has no id the first lacks, both hold the two scalar
  keys and the period is positive, \<open>get_cpu_stats\<close> returns.
\<close>

lemma scalar_rate_total:
  assumes "get_procstat_now text0 = Inr (t0, ks0)" and "get_procstat_now text1 = Inr (t1, ks1)"
      and "map_of t0 key \<noteq> None" and "map_of t1 key \<noteq> None" and "period \<noteq> 0"
  shows "\<exists>r. scalar_rate t0 t1 key period = Inr r"
proof -
  from assms(3) obtain v0 where v0: "map_of t0 key = Some v0" by auto
  from assms(4) obtain v1 where v1: "map_of t1 key = Some v1" by auto
  from snapshot_value_float [OF assms(1) v0] obtain x0 where x0: "py_float v0 = Inr x0" by blast
  from snapshot_value_float [OF assms(2) v1] obtain x1 where x1: "py_float v1 = Inr x1" by blast
  from v0 v1 x0 x1 assms(5) show ?thesis
    by (simp add: scalar_rate_def dict_get_Some)
qed

lemma get_cpu_stats_total:
  assumes "get_procstat_now text0 = Inr (t0, ks0)" and "get_procstat_now text1 = Inr (t1, ks1)"
      and "set ks1 \<subseteq> set ks0"
      and "map_of t0 ''ctxt'' \<noteq> None" and "map_of t1 ''ctxt'' \<noteq> None"
      and "map_of t0 ''processes'' \<noteq> None" and "map_of t1 ''processes'' \<noteq> None"
      and "0 < sample_period cfg"
  shows "\<exists>g. get_cpu_stats cfg g0 text0 text1 = Inr g"
proof -
  from get_procstat_now_inv [OF assms(1)] get_procstat_now_inv [OF assms(2)] assms(3)
  have "\<forall>k \<in> set ks1. has_entry t0 k \<and> has_entry t1 k" by blast
  from cpu_rates_loop_entries [OF this, of "g0\<lparr> cpu_id_list := ks1, cpu_stats_t1 := t1 \<rparr>"]
  obtain g1 where l: "cpu_rates_loop t0 t1 (g0\<lparr> cpu_id_list := ks1, cpu_stats_t1 := t1 \<rparr>) ks1 = Inr g1"
    by blast
  from assms(8) have p: "sample_period cfg \<noteq> 0" by simp
  from scalar_rate_total [OF assms(1,2) assms(4,5) p] obtain c where
    c: "scalar_rate t0 t1 ''ctxt'' (sample_period cfg) = Inr c" by blast
  from scalar_rate_total [OF assms(1,2) assms(6,7) p] obtain q where
    q: "scalar_rate t0 t1 ''processes'' (sample_period cfg) = Inr q" by blast
  from assms(1,2,8) l c q show ?thesis
    by (simp add: get_cpu_stats_def)
qed

lemma list_all2_le_sum:
  fixes a0 a1 :: "int list"
  assumes "list_all2 (\<le>) a0 a1"
  shows "sum_list a0 \<le> sum_list a1"
  using assms by (induction rule: list_all2_induct) auto

lemma list_all2_le_delta:
  fixes a0 a1 :: "int list"
  assumes "list_all2 (\<le>) a0 a1" and "i < length a0"
  shows "0 \<le> a1 ! i - a0 ! i \<and> a1 ! i - a0 ! i \<le> sum_list a1 - sum_list a0"
  using assms
proof (induction arbitrary: i rule: list_all2_induct)
  case Nil
  then show ?case by simp
next
  case (Cons x xs y ys)
  show ?case
  proof (cases i)
    case 0
    with Cons.hyps list_all2_le_sum [OF Cons.hyps(2)] show ?thesis by simp
  next
    case (Suc j)
    with Cons.prems have "j < length xs" by simp
    from Cons.IH [OF this] Cons.hyps(1) Suc show ?thesis by simp
  qed
qed

lemma percent_bounds:
  fixes d dt :: int
  assumes "0 \<le> d" and "d \<le> dt" and "0 < dt"
  shows "0 \<le> num_val (rate_of d dt) \<and> num_val (rate_of d dt) \<le> 100"
proof -
  have "real_of_int (d * 100) \<le> 100 * real_of_int dt"
    using assms(2) by simp
  then have "real_of_int (d * 100) / real_of_int dt \<le> 100"
    using assms(3) by (simp add: pos_divide_le_eq)
  moreover have "0 \<le> real_of_int (d * 100) / real_of_int dt"
    using assms(1,3) by simp
  ultimately show ?thesis using assms(3) by (simp add: rate_of_def)
qed


section \<open>The performance data loop\<close>

lemma perf_loop_tokens:
  assumes "list_all (has_rates g) ks"
  shows "perf_loop fmt cfg g acc ks = Inr (acc @ concat (map (perf_tokens fmt cfg g) ks))"
  using assms
proof (induction ks arbitrary: acc)
  case Nil
  then show ?case by simp
next
  case (Cons k ks)
  from Cons.prems have "has_rates g k" and rest: "list_all (has_rates g) ks" by simp_all
  then obtain c w s where
    v: "map_of (cpu_percent g) k = Some c" "map_of (io_wait_percent g) k = Some w"
       "map_of (steal_percent g) k = Some s"
    by (auto simp: has_rates_def)
  then show ?case
    by (simp add: dict_get_Some perf_tokens_def Cons.IH [OF rest])
qed

lemma length_perf_tokens: "length (concat (map (perf_tokens fmt cfg g) ks)) = 3 * length ks"
  by (induction ks) (simp_all add: perf_tokens_def perf_triplet_def)

lemma perf_tokens_no_space:
  assumes "\<And>r. CHR '' '' \<notin> set (fmt r)" and "CHR '' '' \<notin> set k"
      and "t \<in> set (perf_tokens fmt cfg g k)"
  shows "CHR '' '' \<notin> set t"
  using assms(2,3) py_str_no_space [of fmt, OF assms(1)]
  by (auto simp: perf_tokens_def perf_triplet_def show_int_no_space)


lemma nth_concat_triplets:
  assumes "\<And>k. length (f k) = 3" and "i < length ks" and "j < 3"
  shows "concat (map f ks) ! (3 * i + j) = f (ks ! i) ! j"
  using assms(2)
proof (induction ks arbitrary: i)
  case Nil
  then show ?case by simp
next
  case (Cons k ks)
  show ?case
  proof (cases i)
    case 0
    with assms(1) [of k] assms(3) show ?thesis by (simp add: nth_append)
  next
    case (Suc n)
    with Cons.prems have n: "n < length ks" by simp
    have "3 * Suc n + j = 3 + (3 * n + j)" by simp
    with assms(1) [of k] Cons.IH [OF n] Suc show ?thesis
      by (simp add: nth_append)
  qed
qed

lemma perf_loop_missing:
  assumes "\<not> list_all (has_rates g) ks"
  shows "\<exists>k. k \<in> set ks \<and> \<not> has_rates g k \<and> perf_loop fmt cfg g acc ks = Inl (KeyError k)"
  using assms
proof (induction ks arbitrary: acc)
  case Nil
  then show ?case by simp
next
  case (Cons k ks)
  show ?case
  proof (cases "has_rates g k")
    case True
    then obtain c w s where
      v: "map_of (cpu_percent g) k = Some c" "map_of (io_wait_percent g) k = Some w"
         "map_of (steal_percent g) k = Some s"
      by (auto simp: has_rates_def)
    from True Cons.prems have "\<not> list_all (has_rates g) ks" by simp
    from Cons.IH [OF this, of "acc @ perf_triplet fmt cfg k c w s"] v show ?thesis
      by (auto simp: dict_get_Some)
  next
    case False
    then have "perf_loop fmt cfg g acc (k # ks) = Inl (KeyError k)"
      by (auto simp: has_rates_def dict_get_def split: option.splits)
    with False show ?thesis by auto
  qed
qed

lemma perf_loop_error_any_thresholds:
  "(perf_loop fmt cfg g acc ks = Inl e) = (perf_loop fmt cfg' g acc' ks = Inl e)"
proof (induction ks arbitrary: acc acc')
  case Nil
  then show ?case by simp
next
  case (Cons k ks)
  show ?case
  proof (cases "has_rates g k")
    case True
    then obtain c w s where
      v: "map_of (cpu_percent g) k = Some c" "map_of (io_wait_percent g) k = Some w"
         "map_of (steal_percent g) k = Some s"
      by (auto simp: has_rates_def)
    from Cons.IH [of "acc @ perf_triplet fmt cfg k c w s" "acc' @ perf_triplet fmt cfg' k c w s"] v
    show ?thesis by (simp add: dict_get_Some)
  next
    case False
    then have "perf_loop fmt c0 g a0 (k # ks) = Inl (KeyError k)" for c0 a0
      by (auto simp: has_rates_def dict_get_def split: option.splits)
    then show ?thesis by simp
  qed
qed

lemma performance_data_error_any_thresholds:
  "(performance_data fmt cfg g = Inl e) = (performance_data fmt cfg' g = Inl e)"
  using perf_loop_error_any_thresholds [of fmt cfg g "[]" "cpu_id_list g" e cfg' "[]"]
  by (auto simp: performance_data_def split: sum.splits)


lemma performance_data_tokens:
  assumes hr: "list_all (has_rates g) (cpu_id_list g)"
  shows "\<exists>toks. performance_data fmt cfg g = Inr (py_join toks)
           \<and> length toks = 3 * length (cpu_id_list g)
           \<and> (\<forall>i < length (cpu_id_list g). \<exists>c w s.
                  map_of (cpu_percent g) (cpu_id_list g ! i) = Some c
                \<and> map_of (io_wait_percent g) (cpu_id_list g ! i) = Some w
                \<and> map_of (steal_percent g) (cpu_id_list g ! i) = Some s
                \<and> toks ! (3 * i) = cpu_id_list g ! i @ ''='' @ py_str fmt c @ ''%;''
                      @ show_int (warn cfg) @ '';'' @ show_int (crit cfg) @ '';0;100''
                \<and> toks ! (3 * i + 1) = cpu_id_list g ! i @ ''_iowait='' @ py_str fmt w @ ''%;''
                      @ show_int (io_warn cfg) @ '';'' @ show_int (io_crit cfg) @ '';0;100''
                \<and> toks ! (3 * i + 2) = cpu_id_list g ! i @ ''_steal='' @ py_str fmt s @ ''%;''
                      @ show_int (steal_warn cfg) @ '';'' @ show_int (steal_crit cfg) @ '';0;100'')
           \<and> ((\<forall>r. CHR '' '' \<notin> set (fmt r)) \<and> (\<forall>k \<in> set (cpu_id_list g). CHR '' '' \<notin> set k)
                \<longrightarrow> list_all (\<lambda>t. CHR '' '' \<notin> set t) toks
                    \<and> length (filter (\<lambda>c. c = CHR '' '') (py_join toks))
                        = 3 * length (cpu_id_list g) - 1)"
proof -
  let ?ks = "cpu_id_list g"
  let ?toks = "concat (map (perf_tokens fmt cfg g) ?ks)"
  have len3: "length (perf_tokens fmt cfg g k) = 3" for k
    by (simp add: perf_tokens_def perf_triplet_def)
  have out: "performance_data fmt cfg g = Inr (py_join ?toks)"
    using perf_loop_tokens [OF hr, of fmt cfg "[]"] by (simp add: performance_data_def)
  have each: "\<exists>c w s.
                  map_of (cpu_percent g) (?ks ! i) = Some c
                \<and> map_of (io_wait_percent g) (?ks ! i) = Some w
                \<and> map_of (steal_percent g) (?ks ! i) = Some s
                \<and> ?toks ! (3 * i) = ?ks ! i @ ''='' @ py_str fmt c @ ''%;''
                      @ show_int (warn cfg) @ '';'' @ show_int (crit cfg) @ '';0;100''
                \<and> ?toks ! (3 * i + 1) = ?ks ! i @ ''_iowait='' @ py_str fmt w @ ''%;''
                      @ show_int (io_warn cfg) @ '';'' @ show_int (io_crit cfg) @ '';0;100''
                \<and> ?toks ! (3 * i + 2) = ?ks ! i @ ''_steal='' @ py_str fmt s @ ''%;''
                      @ show_int (steal_warn cfg) @ '';'' @ show_int (steal_crit cfg) @ '';0;100''"
    if i: "i < length ?ks" for i
  proof -
    from hr i have "has_rates g (?ks ! i)" by (simp add: list_all_length)
    then obtain c w s where
      v: "map_of (cpu_percent g) (?ks ! i) = Some c" "map_of (io_wait_percent g) (?ks ! i) = Some w"
         "map_of (steal_percent g) (?ks ! i) = Some s"
      by (auto simp: has_rates_def)
    have n0: "?toks ! (3 * i + 0) = perf_tokens fmt cfg g (?ks ! i) ! 0"
      by (rule nth_concat_triplets [OF len3 i]) simp
    have n1: "?toks ! (3 * i + 1) = perf_tokens fmt cfg g (?ks ! i) ! 1"
      by (rule nth_concat_triplets [OF len3 i]) simp
    have n2: "?toks ! (3 * i + 2) = perf_tokens fmt cfg g (?ks ! i) ! 2"
      by (rule nth_concat_triplets [OF len3 i]) simp
    from n0 n1 n2 v show ?thesis
      by (simp add: perf_tokens_def perf_triplet_def)
  qed
  have spaces: "list_all (\<lambda>t. CHR '' '' \<notin> set t) ?toks
                \<and> length (filter (\<lambda>c. c = CHR '' '') (py_join ?toks)) = 3 * length ?ks - 1"
    if f: "\<forall>r. CHR '' '' \<notin> set (fmt r)" and k: "\<forall>k \<in> set ?ks. CHR '' '' \<notin> set k"
  proof -
    from f have f': "\<And>r. CHR '' '' \<notin> set (fmt r)" by simp
    have ns: "\<forall>t \<in> set ?toks. CHR '' '' \<notin> set t"
      using perf_tokens_no_space [of fmt _ _ cfg g, OF f'] k by auto
    from py_join_spaces [OF ns] ns length_perf_tokens [of fmt cfg g ?ks] show ?thesis
      by (simp add: list_all_iff)
  qed
  from out each spaces length_perf_tokens [of fmt cfg g ?ks] show ?thesis
    by blast
qed

lemma get_cpu_stats_rates_and_ids:
  assumes "get_cpu_stats cfg g0 text0 text1 = Inr g"
  shows "list_all (has_rates g) (cpu_id_list g)
         \<and> cpu_id_list g = map (\<lambda>l. hd (py_split l)) (filter (\<lambda>l. startswith l ''cpu'') (split_nl text1))
         \<and> (\<forall>k \<in> set (cpu_id_list g). CHR '' '' \<notin> set k)"
proof -
  from get_cpu_stats_Inr [OF assms] obtain t0 ks0 t1 ks1 g1 where
    p1: "get_procstat_now text1 = Inr (t1, ks1)"
    and l: "cpu_rates_loop t0 t1 (g0\<lparr> cpu_id_list := ks1, cpu_stats_t1 := t1 \<rparr>) ks1 = Inr g1"
    and g: "cpu_id_list g = ks1" "cpu_percent g = cpu_percent g1"
           "io_wait_percent g = io_wait_percent g1" "steal_percent g = steal_percent g1"
    by blast
  have "has_rates g1 k" if "k \<in> set ks1" for k
    using cpu_rates_loop_has_rates [OF l] that by blast
  then have "list_all (has_rates g) (cpu_id_list g)"
    using g by (simp add: list_all_iff has_rates_def)
  with g(1) get_procstat_now_id_list [OF p1] get_procstat_now_ids_no_space [OF p1]
  show ?thesis by auto
qed

section \<open>The loop of check\_status\<close>

text \<open>
  When every id has its percentages, the loop appends one message for each id at or above
  a threshold, in order, and returns the severity of the last such id (or the initial
  \<open>result\<close> when there is none).
\<close>

lemma check_loop_last_breach:
  assumes "list_all (has_rates g) ks"
  shows "check_loop fmt cfg g result messages ks
           = Inr (last (result # List.map_filter (breach_severity cfg g) ks),
                  messages @ List.map_filter (breach_message fmt cfg g) ks)"
  using assms
proof (induction ks arbitrary: result messages)
  case Nil
  then show ?case by (simp add: List.map_filter_simps)
next
  case (Cons k ks)
  from Cons.prems have "has_rates g k" and rest: "list_all (has_rates g) ks"
    by simp_all
  then obtain v where v: "map_of (cpu_percent g) k = Some v"
    by (auto simp: has_rates_def)
  have step: "check_loop fmt cfg g r0 (messages @ ms) ks
                 = Inr (last (r0 # List.map_filter (breach_severity cfg g) ks),
                        messages @ ms @ List.map_filter (breach_message fmt cfg g) ks)" for r0 ms
    using Cons.IH [OF rest, of r0 "messages @ ms"] by simp
  have bm: "breach_message fmt cfg g k =
              (if num_val v \<ge> real_of_int (crit cfg) then Some (crit_message fmt cfg k v)
               else if num_val v \<ge> real_of_int (warn cfg) then Some (warn_message fmt cfg k v)
               else None)"
    using v by (simp add: breach_message_def)
  have bs: "breach_severity cfg g k =
              (if num_val v \<ge> real_of_int (crit cfg) then Some CRITICAL
               else if num_val v \<ge> real_of_int (warn cfg) then Some WARNING
               else None)"
    using v by (simp add: breach_severity_def)
  show ?case
  proof (cases "real_of_int (crit cfg) \<le> num_val v")
    case True
    with v step [of CRITICAL "[crit_message fmt cfg k v]"] show ?thesis
      by (simp add: dict_get_Some bm bs List.map_filter_simps)
  next
    case False
    show ?thesis
    proof (cases "real_of_int (warn cfg) \<le> num_val v")
      case True
      with v \<open>\<not> real_of_int (crit cfg) \<le> num_val v\<close> step [of WARNING "[warn_message fmt cfg k v]"]
      show ?thesis
        by (simp add: dict_get_Some bm bs List.map_filter_simps)
    next
      case False
      with v \<open>\<not> real_of_int (crit cfg) \<le> num_val v\<close> step [of result "[]"]
      show ?thesis
        by (simp add: dict_get_Some bm bs List.map_filter_simps)
    qed
  qed
qed


lemma check_status_result:
  assumes "list_all (has_rates g) (cpu_id_list g)"
  shows "\<exists>m. check_status fmt cfg g
               = Inr (last (OK # List.map_filter (breach_severity cfg g) (cpu_id_list g)), m)"
  using check_loop_last_breach [OF assms, of fmt cfg OK "[]"]
  by (simp add: check_status_def)

section \<open>Claim C1: the returned severity\<close>

text \<open>
  C1. The claim is that \<open>check_status\<close> returns the worst severity found. On \<open>stat_a0\<close>,
  \<open>stat_a1\<close> with the default thresholds the aggregate id and cpu0 are at or above
  \<open>crit\<close> and cpu1, the last id, is only above \<open>warn\<close>: every breach gets its message, but
  \<open>result\<close> is assigned, not maximised, and the exit code is \<open>WARNING\<close>.
\<close>

theorem check_status_last_breach_wins:
  "main whole_repr default_config stat_a0 stat_a1 =
     Inr (WARNING,
       ''CRITICAL: cpu CPU usage at 98.0% exceeds critical threshold of 98% CRITICAL: cpu0 CPU usage at 100.0% exceeds critical threshold of 98% WARNING: cpu1 CPU usage at 96.0% exceeds warning threshold of 95% | cpu=98.0%;95;98;0;100 cpu_iowait=0.0%;90;98;0;100 cpu_steal=0.0%;30;80;0;100 cpu0=100.0%;95;98;0;100 cpu0_iowait=0.0%;90;98;0;100 cpu0_steal=0.0%;30;80;0;100 cpu1=96.0%;95;98;0;100 cpu1_iowait=0.0%;90;98;0;100 cpu1_steal=0.0%;30;80;0;100'')"
  by code_simp


section \<open>Claim C2: thresholds applied to a single core\<close>

text \<open>
  C2. The claim is that an individual core is compared against \<open>per_cpu_warn\<close> and
  \<open>per_cpu_crit\<close>, so that with \<open>per_cpu_crit = 100\<close> a core at 100 percent under an
  aggregate of 40 percent is not critical. \<open>check_status\<close> compares every id against
  \<open>warn\<close> and \<open>crit\<close>: on \<open>stat_b0\<close>, \<open>stat_b1\<close> the run is \<open>CRITICAL\<close> for cpu0.
\<close>

theorem check_status_core_uses_aggregate_thresholds:
  "main whole_repr default_config stat_b0 stat_b1 =
     Inr (CRITICAL,
       ''CRITICAL: cpu0 CPU usage at 100.0% exceeds critical threshold of 98% | cpu=40.0%;95;98;0;100 cpu_iowait=0.0%;90;98;0;100 cpu_steal=0.0%;30;80;0;100 cpu0=100.0%;95;98;0;100 cpu0_iowait=0.0%;90;98;0;100 cpu0_steal=0.0%;30;80;0;100 cpu1=0.0%;95;98;0;100 cpu1_iowait=0.0%;90;98;0;100 cpu1_steal=0.0%;30;80;0;100 cpu2=20.0%;95;98;0;100 cpu2_iowait=0.0%;90;98;0;100 cpu2_steal=0.0%;30;80;0;100'')"
  by code_simp


section \<open>Claim C3: io-wait and steal thresholds\<close>

text \<open>
  C3. The claim is that io-wait and steal percentages are compared against their
  thresholds and contribute to the severity. On \<open>stat_c0\<close>, \<open>stat_c1\<close> cpu0 is at 92
  percent io-wait (\<open>io_warn = 90\<close>) and cpu1 at 50 percent steal (\<open>steal_warn = 30\<close>), both
  are printed in the performance data, and the run is \<open>OK\<close>.
\<close>

theorem check_status_ignores_iowait_and_steal:
  "main whole_repr default_config stat_c0 stat_c1 =
     Inr (OK,
       ''OK: CPU usage is within normal parameters | cpu=71.0%;95;98;0;100 cpu_iowait=46.0%;90;98;0;100 cpu_steal=25.0%;30;80;0;100 cpu0=92.0%;95;98;0;100 cpu0_iowait=92.0%;90;98;0;100 cpu0_steal=0.0%;30;80;0;100 cpu1=50.0%;95;98;0;100 cpu1_iowait=0.0%;90;98;0;100 cpu1_steal=50.0%;30;80;0;100'')"
  by code_simp


section \<open>Claim C4: the two per-second rates\<close>

text \<open>
  C4. The claim is that the two per-second rates come from the integers on the \<open>ctxt\<close> and
  \<open>processes\<close> lines. In \<open>stat_a0\<close>, \<open>stat_a1\<close> those lines go from 5000 to 5600 and from
  300 to 310 over one second, which would give 600 and 10. The snapshot stores
  \<open>parts[1]\<close> of the last cpu line instead (the user ticks of cpu1, 250 and then 346),
  and both rates are 96.
\<close>

theorem scalar_rates_from_last_cpu_line:
  "get_procstat_now stat_a1 = Inr (snap_a1, [''cpu'', ''cpu0'', ''cpu1''])
   \<and> map_of snap_a1 ''ctxt'' = Some (PStr ''346'')
   \<and> map_of snap_a1 ''processes'' = Some (PStr ''346'')
   \<and> get_cpu_stats default_config initial_globals stat_a0 stat_a1 = Inr final_a
   \<and> ctxt_per_second final_a = PyFloat 96
   \<and> processes_per_second final_a = PyFloat 96"
  by code_simp


section \<open>Claim C5: ids of the second read that the first read lacks\<close>

text \<open>
  C5, as the claim states it, fails: an id that only the second read has is not skipped.
  With \<open>stat_d0\<close> (aggregate line only) read first and \<open>stat_a1\<close> (aggregate, cpu0, cpu1)
  read second, the lookup \<open>cpu_stats_t0['cpu0all']\<close> raises \<open>KeyError\<close>.
\<close>

theorem missing_early_id_counterexample:
  "get_cpu_stats default_config initial_globals stat_d0 stat_a1 = Inl (KeyError ''cpu0all'')"
  by code_simp

text \<open>
  C5, amended. For two reads that both parse: if every id of the second read is an id of
  the first, the rate loop does not fail and stores the three percentages of every id of
  the second read. If the second read has an id that the first lacks (the ids of the first
  being \<open>cpu\<close> or \<open>cpu\<close> followed by digits, and the period not negative), nothing is
  skipped: \<open>get_cpu_stats\<close> ends with \<open>KeyError\<close> on the \<open>all\<close> key of such an id.
\<close>

theorem late_ids_need_early_entries:
  assumes "get_procstat_now text0 = Inr (t0, ks0)" and "get_procstat_now text1 = Inr (t1, ks1)"
  shows "(set ks1 \<subseteq> set ks0
            \<longrightarrow> (\<exists>g'. cpu_rates_loop t0 t1 g ks1 = Inr g' \<and> list_all (has_rates g') ks1))
         \<and> (\<not> set ks1 \<subseteq> set ks0 \<and> list_all cpu_id_ok ks0 \<and> 0 \<le> sample_period cfg
            \<longrightarrow> (\<exists>k. k \<in> set ks1 \<and> k \<notin> set ks0
                     \<and> get_cpu_stats cfg g0 text0 text1 = Inl (KeyError (k @ ''all''))))"
proof (intro conjI impI)
  note i0 = get_procstat_now_inv [OF assms(1)]
  note i1 = get_procstat_now_inv [OF assms(2)]
  {
    assume sub: "set ks1 \<subseteq> set ks0"
    with i0 i1 have "\<forall>k \<in> set ks1. has_entry t0 k \<and> has_entry t1 k" by blast
    from cpu_rates_loop_entries [OF this, of g] obtain g' where
      l: "cpu_rates_loop t0 t1 g ks1 = Inr g'" by blast
    have "has_rates g' k" if "k \<in> set ks1" for k
      using cpu_rates_loop_has_rates [OF l] that by blast
    with l show "\<exists>g'. cpu_rates_loop t0 t1 g ks1 = Inr g' \<and> list_all (has_rates g') ks1"
      by (auto simp: list_all_iff)
  }
  {
    assume h: "\<not> set ks1 \<subseteq> set ks0 \<and> list_all cpu_id_ok ks0 \<and> 0 \<le> sample_period cfg"
    have a: "\<forall>k \<in> set ks1. has_entry t1 k" using i1 by blast
    have b: "\<forall>k \<in> set ks1. if k \<in> set ks0 then has_entry t0 k else map_of t0 (k @ ''all'') = None"
    proof
      fix k assume k: "k \<in> set ks1"
      show "if k \<in> set ks0 then has_entry t0 k else map_of t0 (k @ ''all'') = None"
      proof (cases "k \<in> set ks0")
        case True
        with i0 show ?thesis by simp
      next
        case False
        from k i1 have "startswith k ''cpu''" by blast
        from all_key_not_in_snapshot_keys [OF this False] h i0
        have "k @ ''all'' \<notin> fst ` set t0" by blast
        with False show ?thesis by (simp add: map_of_eq_None_iff)
      qed
    qed
    from h have c: "\<exists>k \<in> set ks1. k \<notin> set ks0" by blast
    from cpu_rates_loop_missing [OF a b c, of "g0\<lparr> cpu_id_list := ks1, cpu_stats_t1 := t1 \<rparr>"]
    obtain k where k: "k \<in> set ks1" "k \<notin> set ks0"
      and l: "cpu_rates_loop t0 t1 (g0\<lparr> cpu_id_list := ks1, cpu_stats_t1 := t1 \<rparr>) ks1 = Inl (KeyError (k @ ''all''))"
      by blast
    from h l assms have "get_cpu_stats cfg g0 text0 text1 = Inl (KeyError (k @ ''all''))"
      by (simp add: get_cpu_stats_def)
    with k show "\<exists>k. k \<in> set ks1 \<and> k \<notin> set ks0
                     \<and> get_cpu_stats cfg g0 text0 text1 = Inl (KeyError (k @ ''all''))"
      by blast
  }
qed

theorem late_ids_need_early_entries_witness:
  "get_procstat_now stat_d0 = Inr (snap_d0, [''cpu''])
   \<and> get_procstat_now stat_d1 = Inr (snap_d1, [''cpu''])
   \<and> get_procstat_now stat_a1 = Inr (snap_a1, [''cpu'', ''cpu0'', ''cpu1''])
   \<and> cpu_rates_loop snap_d0 snap_d1 initial_globals [''cpu''] = Inr rates_d
   \<and> list_all (has_rates rates_d) [''cpu'']
   \<and> (\<exists>k. k \<in> set [''cpu'', ''cpu0'', ''cpu1''] \<and> k \<notin> set [''cpu'']
          \<and> get_cpu_stats default_config initial_globals stat_d0 stat_a1 = Inl (KeyError (k @ ''all'')))"
proof -
  have a1: "get_procstat_now stat_a1 = Inr (snap_a1, [''cpu'', ''cpu0'', ''cpu1''])"
    by code_simp
  have l: "cpu_rates_loop snap_d0 snap_d1 initial_globals [''cpu''] = Inr rates_d"
    by code_simp
  have sub: "set [''cpu''] \<subseteq> set [''cpu'']" by simp
  have nsub: "\<not> set [''cpu'', ''cpu0'', ''cpu1''] \<subseteq> set [''cpu''] \<and> list_all cpu_id_ok [''cpu'']
              \<and> 0 \<le> sample_period default_config"
    by code_simp
  from late_ids_need_early_entries [OF snapshot_d0 snapshot_d1, of initial_globals] sub l
  have "list_all (has_rates rates_d) [''cpu'']" by auto
  moreover from late_ids_need_early_entries [OF snapshot_d0 a1, of _ default_config initial_globals] nsub
  have "\<exists>k. k \<in> set [''cpu'', ''cpu0'', ''cpu1''] \<and> k \<notin> set [''cpu'']
          \<and> get_cpu_stats default_config initial_globals stat_d0 stat_a1 = Inl (KeyError (k @ ''all''))"
    by blast
  ultimately show ?thesis using snapshot_d0 snapshot_d1 a1 l by blast
qed


section \<open>Claim C6: sign of the percentages\<close>

text \<open>
  C6, as the claim states it, fails: nothing clamps a percentage. On \<open>stat_d0\<close>, \<open>stat_d1\<close>
  the total grows by 100 ticks, the io-wait counter falls by 10, and the reported io-wait
  percentage is \<open>-10\<close>.
\<close>

theorem negative_iowait_counterexample:
  "get_cpu_stats default_config initial_globals stat_d0 stat_d1 = Inr final_d
   \<and> map_of (io_wait_percent final_d) ''cpu'' = Some (PyFloat (- 10))
   \<and> num_val (PyFloat (- 10)) < 0"
  by code_simp

text \<open>
  C6, amended. For an id of the loop whose four values are present in both snapshots:
  when the total did not grow the three percentages are exactly the int \<open>0\<close>; when it
  grew each percentage is \<open>(late - early) * 100 / delta_total\<close> of its own counter, with
  no clamping, so it is negative exactly when that counter decreased.
\<close>

theorem rates_zero_or_unclamped:
  assumes "cpu_rates_loop t0 t1 g ks = Inr g'" and "k \<in> set ks"
      and "map_of t1 (k @ ''all'') = Some (PInt T1)" and "map_of t0 (k @ ''all'') = Some (PInt T0)"
      and "map_of t1 k = Some (PInt U1)" and "map_of t0 k = Some (PInt U0)"
      and "map_of t1 (k @ ''io_wait'') = Some (PInt W1)" and "map_of t0 (k @ ''io_wait'') = Some (PInt W0)"
      and "map_of t1 (k @ ''steal'') = Some (PInt S1)" and "map_of t0 (k @ ''steal'') = Some (PInt S0)"
  shows "\<exists>c w s.
           map_of (cpu_percent g') k = Some c \<and> map_of (io_wait_percent g') k = Some w
           \<and> map_of (steal_percent g') k = Some s
           \<and> (if T1 - T0 \<le> 0 then c = PyInt 0 \<and> w = PyInt 0 \<and> s = PyInt 0
               else c = PyFloat (real_of_int ((U1 - U0) * 100) / real_of_int (T1 - T0))
                  \<and> w = PyFloat (real_of_int ((W1 - W0) * 100) / real_of_int (T1 - T0))
                  \<and> s = PyFloat (real_of_int ((S1 - S0) * 100) / real_of_int (T1 - T0))
                  \<and> (num_val c < 0 \<longleftrightarrow> U1 < U0)
                  \<and> (num_val w < 0 \<longleftrightarrow> W1 < W0)
                  \<and> (num_val s < 0 \<longleftrightarrow> S1 < S0))"
proof -
  from cpu_rates_loop_value [OF assms(1) assms(3-10)] assms(2)
  have v: "map_of (cpu_percent g') k = Some (rate_of (U1 - U0) (T1 - T0))"
          "map_of (io_wait_percent g') k = Some (rate_of (W1 - W0) (T1 - T0))"
          "map_of (steal_percent g') k = Some (rate_of (S1 - S0) (T1 - T0))"
    by blast+
  show ?thesis
  proof (cases "T1 - T0 \<le> 0")
    case True
    then have "rate_of d (T1 - T0) = PyInt 0" for d
      by (simp add: rate_of_def)
    with v True show ?thesis by simp
  next
    case False
    then have pos: "0 < real_of_int (T1 - T0)" by simp
    have r: "rate_of d (T1 - T0) = PyFloat (real_of_int (d * 100) / real_of_int (T1 - T0))" for d
      using False by (simp add: rate_of_def)
    have sg: "(real_of_int (d * 100) / real_of_int (T1 - T0) < 0) = (d < 0)" for d
      using pos by (simp add: divide_less_0_iff del: of_int_diff)
    from v False sg [of "U1 - U0"] sg [of "W1 - W0"] sg [of "S1 - S0"] show ?thesis
      unfolding r by simp
  qed
qed

theorem rates_zero_or_unclamped_witness:
  "get_procstat_now stat_d0 = Inr (snap_d0, [''cpu''])
   \<and> get_procstat_now stat_d1 = Inr (snap_d1, [''cpu''])
   \<and> cpu_rates_loop snap_d0 snap_d1 initial_globals [''cpu''] = Inr rates_d
   \<and> map_of (cpu_percent rates_d) ''cpu'' = Some (PyFloat 100)
   \<and> map_of (io_wait_percent rates_d) ''cpu'' = Some (PyFloat (- 10))
   \<and> map_of (steal_percent rates_d) ''cpu'' = Some (PyFloat 0)
   \<and> num_val (PyFloat (- 10)) < 0
   \<and> cpu_rates_loop snap_d0 snap_d0 initial_globals [''cpu''] = Inr rates_z
   \<and> map_of (cpu_percent rates_z) ''cpu'' = Some (PyInt 0)
   \<and> map_of (io_wait_percent rates_z) ''cpu'' = Some (PyInt 0)
   \<and> map_of (steal_percent rates_z) ''cpu'' = Some (PyInt 0)"
proof -
  have h1: "cpu_rates_loop snap_d0 snap_d1 initial_globals [''cpu''] = Inr rates_d"
    by code_simp
  have z1: "cpu_rates_loop snap_d0 snap_d0 initial_globals [''cpu''] = Inr rates_z"
    by code_simp
  have h2: "''cpu'' \<in> set [''cpu'']" by simp
  have h3: "map_of snap_d1 (''cpu'' @ ''all'') = Some (PInt 160)" by code_simp
  have h4: "map_of snap_d0 (''cpu'' @ ''all'') = Some (PInt 60)" by code_simp
  have h5: "map_of snap_d1 ''cpu'' = Some (PInt 160)" by code_simp
  have h6: "map_of snap_d0 ''cpu'' = Some (PInt 60)" by code_simp
  have h7: "map_of snap_d1 (''cpu'' @ ''io_wait'') = Some (PInt 40)" by code_simp
  have h8: "map_of snap_d0 (''cpu'' @ ''io_wait'') = Some (PInt 50)" by code_simp
  have h9: "map_of snap_d1 (''cpu'' @ ''steal'') = Some (PInt 0)" by code_simp
  have h10: "map_of snap_d0 (''cpu'' @ ''steal'') = Some (PInt 0)" by code_simp
  from rates_zero_or_unclamped [OF h1 h2 h3 h4 h5 h6 h7 h8 h9 h10]
  have grew: "map_of (cpu_percent rates_d) ''cpu'' = Some (PyFloat 100)
              \<and> map_of (io_wait_percent rates_d) ''cpu'' = Some (PyFloat (- 10))
              \<and> map_of (steal_percent rates_d) ''cpu'' = Some (PyFloat 0)"
    by auto
  from rates_zero_or_unclamped [OF z1 h2 h4 h4 h6 h6 h8 h8 h10 h10]
  have same: "map_of (cpu_percent rates_z) ''cpu'' = Some (PyInt 0)
              \<and> map_of (io_wait_percent rates_z) ''cpu'' = Some (PyInt 0)
              \<and> map_of (steal_percent rates_z) ''cpu'' = Some (PyInt 0)"
    by auto
  from grew same h1 z1 snapshot_d0 snapshot_d1 show ?thesis by simp
qed


section \<open>Claim C7: short and malformed cpu lines\<close>

text \<open>
  C7, as the claim states it, fails: no exception is caught anywhere. With a first read
  whose cpu0 line holds the token \<open>x\<close>, \<open>int()\<close> raises \<open>ValueError\<close> and the whole run ends
  with it, although the aggregate line and the second read are well formed.
\<close>

theorem malformed_line_counterexample:
  "main whole_repr default_config stat_bad stat_d1 = Inl ValueError"
  by code_simp

text \<open>
  C7, amended. A cpu line with fewer than ten integer fields is accepted and its tick
  array is padded on the right with zeros to ten elements before the four values are
  stored. A cpu line with a token that \<open>int()\<close> rejects raises \<open>ValueError\<close>; the error is not
  confined to the line: a text containing such a line makes \<open>get_procstat_now\<close> fail.
\<close>

theorem short_line_padded_bad_token_aborts:
  "(startswith l ''cpu'' \<and> py_split l = cpu_id # toks \<and> int_ticks toks = Inr ticks
      \<and> length ticks < 10
    \<longrightarrow> procstat_line st l =
          Inr \<lparr> parts = Some (cpu_id # toks),
                cpu_stats = store_ticks (cpu_stats st) cpu_id (ticks @ replicate (10 - length ticks) 0),
                id_list = id_list st @ [cpu_id] \<rparr>)
   \<and> (startswith bad ''cpu'' \<and> tok \<in> set (tl (py_split bad)) \<and> py_int tok = None
      \<longrightarrow> procstat_line st' bad = Inl ValueError
          \<and> (bad \<in> set (split_nl procstat_text) \<longrightarrow> (\<exists>e. get_procstat_now procstat_text = Inl e)))"
proof (intro conjI impI)
  assume "startswith l ''cpu'' \<and> py_split l = cpu_id # toks \<and> int_ticks toks = Inr ticks
      \<and> length ticks < 10"
  then show "procstat_line st l =
          Inr \<lparr> parts = Some (cpu_id # toks),
                cpu_stats = store_ticks (cpu_stats st) cpu_id (ticks @ replicate (10 - length ticks) 0),
                id_list = id_list st @ [cpu_id] \<rparr>"
    using cpu_line_padded [of toks ticks st cpu_id] by (simp add: procstat_line_cpu)
next
  assume b: "startswith bad ''cpu'' \<and> tok \<in> set (tl (py_split bad)) \<and> py_int tok = None"
  then show "procstat_line st' bad = Inl ValueError"
    using cpu_line_bad_token [of tok "py_split bad"] by (simp add: procstat_line_cpu)
next
  assume b: "startswith bad ''cpu'' \<and> tok \<in> set (tl (py_split bad)) \<and> py_int tok = None"
    and m: "bad \<in> set (split_nl procstat_text)"
  from b have "\<exists>e. procstat_line s bad = Inl e" for s
    using cpu_line_bad_token [of tok "py_split bad"] by (simp add: procstat_line_cpu)
  from procstat_loop_failing_line [OF m this, of "\<lparr> parts = None, cpu_stats = [], id_list = [] \<rparr>"]
  obtain e where "procstat_loop \<lparr> parts = None, cpu_stats = [], id_list = [] \<rparr> (split_nl procstat_text) = Inl e"
    by blast
  then show "\<exists>e. get_procstat_now procstat_text = Inl e"
    by (simp add: get_procstat_now_def)
qed

theorem short_line_padded_bad_token_aborts_witness:
  "procstat_line \<lparr> parts = None, cpu_stats = [], id_list = [] \<rparr> ''cpu0 7 0 3 40''
     = Inr \<lparr> parts = Some [''cpu0'', ''7'', ''0'', ''3'', ''40''],
             cpu_stats = [(''cpu0'', PInt 10), (''cpu0all'', PInt 50), (''cpu0io_wait'', PInt 0),
                          (''cpu0steal'', PInt 0)],
             id_list = [''cpu0''] \<rparr>
   \<and> procstat_line \<lparr> parts = None, cpu_stats = [], id_list = [] \<rparr> ''cpu0 10 x 0 0 50 0 0 0 0 0''
       = Inl ValueError
   \<and> (\<exists>e. get_procstat_now stat_bad = Inl e)"
proof -
  let ?st = "\<lparr> parts = None, cpu_stats = [], id_list = [] \<rparr>"
  have a: "startswith ''cpu0 7 0 3 40'' ''cpu'' \<and> py_split ''cpu0 7 0 3 40'' = ''cpu0'' # [''7'', ''0'', ''3'', ''40'']
           \<and> int_ticks [''7'', ''0'', ''3'', ''40''] = Inr [7, 0, 3, 40] \<and> length [7, 0, 3, 40 :: int] < 10"
    by code_simp
  have b: "startswith ''cpu0 10 x 0 0 50 0 0 0 0 0'' ''cpu''
           \<and> ''x'' \<in> set (tl (py_split ''cpu0 10 x 0 0 50 0 0 0 0 0'')) \<and> py_int ''x'' = None"
    by code_simp
  have m: "''cpu0 10 x 0 0 50 0 0 0 0 0'' \<in> set (split_nl stat_bad)"
    by code_simp
  have s: "store_ticks [] ''cpu0'' ([7, 0, 3, 40] @ replicate (10 - length [7, 0, 3, 40 :: int]) 0)
            = [(''cpu0'', PInt 10), (''cpu0all'', PInt 50), (''cpu0io_wait'', PInt 0), (''cpu0steal'', PInt 0)]"
    by code_simp
  from short_line_padded_bad_token_aborts [of "''cpu0 7 0 3 40''" "''cpu0''" "[''7'', ''0'', ''3'', ''40'']"
      "[7, 0, 3, 40]" ?st "''cpu0 10 x 0 0 50 0 0 0 0 0''" "''x''" ?st stat_bad] a b m s
  show ?thesis by simp
qed


section \<open>Claim C8: range of the percentages under monotone counters\<close>

text \<open>
  C8. For an id of the loop whose snapshot values derive from the ten-element tick arrays
  \<open>a0\<close> (early) and \<open>a1\<close> (late): if every counter of \<open>a1\<close> is at least its counterpart
  in \<open>a0\<close> and the total grew, the busy, io-wait and steal percentages lie in \<open>[0, 100]\<close>.
\<close>

theorem monotone_counters_percent_range:
  assumes "cpu_rates_loop t0 t1 g ks = Inr g'" and "k \<in> set ks"
      and "snapshot_entry t0 k a0" and "snapshot_entry t1 k a1"
      and "list_all2 (\<le>) a0 a1"
      and "0 < sum_list a1 - sum_list a0"
  shows "\<exists>c w s.
           map_of (cpu_percent g') k = Some c \<and> map_of (io_wait_percent g') k = Some w
           \<and> map_of (steal_percent g') k = Some s
           \<and> 0 \<le> num_val c \<and> num_val c \<le> 100
           \<and> 0 \<le> num_val w \<and> num_val w \<le> 100
           \<and> 0 \<le> num_val s \<and> num_val s \<le> 100"
proof -
  from assms(3,4) have len: "length a0 = 10" "length a1 = 10"
    by (simp_all add: snapshot_entry_def)
  have e: "map_of t1 (k @ ''all'') = Some (PInt (sum_list a1))" "map_of t0 (k @ ''all'') = Some (PInt (sum_list a0))"
          "map_of t1 k = Some (PInt (sum_list a1 - a1 ! 3))" "map_of t0 k = Some (PInt (sum_list a0 - a0 ! 3))"
          "map_of t1 (k @ ''io_wait'') = Some (PInt (a1 ! 4))" "map_of t0 (k @ ''io_wait'') = Some (PInt (a0 ! 4))"
          "map_of t1 (k @ ''steal'') = Some (PInt (a1 ! 7))" "map_of t0 (k @ ''steal'') = Some (PInt (a0 ! 7))"
    using assms(3,4) by (simp_all add: snapshot_entry_def)
  from cpu_rates_loop_value [OF assms(1) e] assms(2)
  have v: "map_of (cpu_percent g') k = Some (rate_of (sum_list a1 - a1 ! 3 - (sum_list a0 - a0 ! 3)) (sum_list a1 - sum_list a0))"
          "map_of (io_wait_percent g') k = Some (rate_of (a1 ! 4 - a0 ! 4) (sum_list a1 - sum_list a0))"
          "map_of (steal_percent g') k = Some (rate_of (a1 ! 7 - a0 ! 7) (sum_list a1 - sum_list a0))"
    by blast+
  have idle: "0 \<le> a1 ! 3 - a0 ! 3 \<and> a1 ! 3 - a0 ! 3 \<le> sum_list a1 - sum_list a0"
    using list_all2_le_delta [OF assms(5), of 3] len by simp
  have io: "0 \<le> a1 ! 4 - a0 ! 4 \<and> a1 ! 4 - a0 ! 4 \<le> sum_list a1 - sum_list a0"
    using list_all2_le_delta [OF assms(5), of 4] len by simp
  have st: "0 \<le> a1 ! 7 - a0 ! 7 \<and> a1 ! 7 - a0 ! 7 \<le> sum_list a1 - sum_list a0"
    using list_all2_le_delta [OF assms(5), of 7] len by simp
  have busy: "0 \<le> sum_list a1 - a1 ! 3 - (sum_list a0 - a0 ! 3)
              \<and> sum_list a1 - a1 ! 3 - (sum_list a0 - a0 ! 3) \<le> sum_list a1 - sum_list a0"
    using idle by linarith
  from percent_bounds [OF _ _ assms(6)] busy io st v show ?thesis
    by simp
qed

theorem monotone_counters_percent_range_witness:
  "cpu_rates_loop (store_ticks [] ''cpu0'' ticks_e0) (store_ticks [] ''cpu0'' ticks_e1)
       initial_globals [''cpu0''] = Inr rates_e
   \<and> list_all2 (\<le>) ticks_e0 ticks_e1
   \<and> 0 < sum_list ticks_e1 - sum_list ticks_e0
   \<and> (\<exists>c w s.
         map_of (cpu_percent rates_e) ''cpu0'' = Some c
         \<and> map_of (io_wait_percent rates_e) ''cpu0'' = Some w
         \<and> map_of (steal_percent rates_e) ''cpu0'' = Some s
         \<and> 0 \<le> num_val c \<and> num_val c \<le> 100
         \<and> 0 \<le> num_val w \<and> num_val w \<le> 100
         \<and> 0 \<le> num_val s \<and> num_val s \<le> 100)"
proof -
  have h1: "cpu_rates_loop (store_ticks [] ''cpu0'' ticks_e0) (store_ticks [] ''cpu0'' ticks_e1)
              initial_globals [''cpu0''] = Inr rates_e"
    by code_simp
  have h2: "''cpu0'' \<in> set [''cpu0'']" by simp
  have h3: "snapshot_entry (store_ticks [] ''cpu0'' ticks_e0) ''cpu0'' ticks_e0"
    by (rule store_ticks_entry) (simp add: ticks_e0_def)
  have h4: "snapshot_entry (store_ticks [] ''cpu0'' ticks_e1) ''cpu0'' ticks_e1"
    by (rule store_ticks_entry) (simp add: ticks_e1_def)
  have h5: "list_all2 (\<le>) ticks_e0 ticks_e1" by (simp add: ticks_e0_def ticks_e1_def)
  have h6: "0 < sum_list ticks_e1 - sum_list ticks_e0" by (simp add: ticks_e0_def ticks_e1_def)
  from monotone_counters_percent_range [OF h1 h2 h3 h4 h5 h6] h1 h5 h6 show ?thesis
    by blast
qed


section \<open>Claim C9: the performance data line\<close>

text \<open>
  C9, as the claim states it, fails in two places. \<open>performance_data\<close> can fail: called on
  globals that list an id without percentages it raises \<open>KeyError\<close>. And an id does not get
  exactly one triplet: the list of ids has one entry for each cpu line, so an id whose line
  stands twice is printed twice.
\<close>

theorem formatter_fails_or_repeats_counterexample:
  "performance_data whole_repr default_config listed_without_rates = Inl (KeyError ''cpu'')
   \<and> get_cpu_stats default_config initial_globals stat_dup0 stat_dup1 = Inr final_dup
   \<and> cpu_id_list final_dup = [''cpu'', ''cpu0'', ''cpu0'']
   \<and> performance_data whole_repr default_config final_dup =
       Inr ''cpu=50.0%;95;98;0;100 cpu_iowait=0.0%;90;98;0;100 cpu_steal=0.0%;30;80;0;100 cpu0=50.0%;95;98;0;100 cpu0_iowait=0.0%;90;98;0;100 cpu0_steal=0.0%;30;80;0;100 cpu0=50.0%;95;98;0;100 cpu0_iowait=0.0%;90;98;0;100 cpu0_steal=0.0%;30;80;0;100''"
  by code_simp

text \<open>
  C9, amended. When every listed id has its three percentages, \<open>performance_data\<close> returns
  the space-joined list of exactly \<open>3 * |cpu_id_list|\<close> tokens: for the \<open>i\<close>-th entry of
  \<open>cpu_id_list\<close>, in order, the tokens \<open>id=busy%;warn;crit;0;100\<close>,
  \<open>id_iowait=iowait%;io_warn;io_crit;0;100\<close> and \<open>id_steal=steal%;steal_warn;steal_crit;0;100\<close>,
  none with a space in it when the ids and the float rendering have none. Otherwise it
  raises \<open>KeyError\<close> for a listed id that lacks a percentage. The thresholds are printed and
  never compared: the values come from the dictionaries alone, and whether and how the
  call fails is the same for any two configurations. After a successful \<open>get_cpu_stats\<close>
  every listed id has its percentages, and the list holds the first token of each cpu
  line of the second read, in line order.
\<close>

theorem performance_data_exact:
  "(list_all (has_rates g) (cpu_id_list g) \<longrightarrow>
      (\<exists>toks. performance_data fmt cfg g = Inr (py_join toks)
           \<and> length toks = 3 * length (cpu_id_list g)
           \<and> (\<forall>i < length (cpu_id_list g). \<exists>c w s.
                  map_of (cpu_percent g) (cpu_id_list g ! i) = Some c
                \<and> map_of (io_wait_percent g) (cpu_id_list g ! i) = Some w
                \<and> map_of (steal_percent g) (cpu_id_list g ! i) = Some s
                \<and> toks ! (3 * i) = cpu_id_list g ! i @ ''='' @ py_str fmt c @ ''%;''
                      @ show_int (warn cfg) @ '';'' @ show_int (crit cfg) @ '';0;100''
                \<and> toks ! (3 * i + 1) = cpu_id_list g ! i @ ''_iowait='' @ py_str fmt w @ ''%;''
                      @ show_int (io_warn cfg) @ '';'' @ show_int (io_crit cfg) @ '';0;100''
                \<and> toks ! (3 * i + 2) = cpu_id_list g ! i @ ''_steal='' @ py_str fmt s @ ''%;''
                      @ show_int (steal_warn cfg) @ '';'' @ show_int (steal_crit cfg) @ '';0;100'')
           \<and> ((\<forall>r. CHR '' '' \<notin> set (fmt r)) \<and> (\<forall>k \<in> set (cpu_id_list g). CHR '' '' \<notin> set k)
                \<longrightarrow> list_all (\<lambda>t. CHR '' '' \<notin> set t) toks
                    \<and> length (filter (\<lambda>c. c = CHR '' '') (py_join toks))
                        = 3 * length (cpu_id_list g) - 1)))
   \<and> (\<not> list_all (has_rates g) (cpu_id_list g) \<longrightarrow>
        (\<exists>k. k \<in> set (cpu_id_list g) \<and> \<not> has_rates g k
            \<and> performance_data fmt cfg g = Inl (KeyError k)))
   \<and> ((performance_data fmt cfg g = Inl e) = (performance_data fmt cfg' g = Inl e))
   \<and> (get_cpu_stats cfg0 g0 text0 text1 = Inr g \<longrightarrow>
        list_all (has_rates g) (cpu_id_list g)
        \<and> cpu_id_list g = map (\<lambda>l. hd (py_split l)) (filter (\<lambda>l. startswith l ''cpu'') (split_nl text1))
        \<and> (\<forall>k \<in> set (cpu_id_list g). CHR '' '' \<notin> set k))"
proof (intro conjI impI)
  assume "list_all (has_rates g) (cpu_id_list g)"
  then show "\<exists>toks. performance_data fmt cfg g = Inr (py_join toks)
           \<and> length toks = 3 * length (cpu_id_list g)
           \<and> (\<forall>i < length (cpu_id_list g). \<exists>c w s.
                  map_of (cpu_percent g) (cpu_id_list g ! i) = Some c
                \<and> map_of (io_wait_percent g) (cpu_id_list g ! i) = Some w
                \<and> map_of (steal_percent g) (cpu_id_list g ! i) = Some s
                \<and> toks ! (3 * i) = cpu_id_list g ! i @ ''='' @ py_str fmt c @ ''%;''
                      @ show_int (warn cfg) @ '';'' @ show_int (crit cfg) @ '';0;100''
                \<and> toks ! (3 * i + 1) = cpu_id_list g ! i @ ''_iowait='' @ py_str fmt w @ ''%;''
                      @ show_int (io_warn cfg) @ '';'' @ show_int (io_crit cfg) @ '';0;100''
                \<and> toks ! (3 * i + 2) = cpu_id_list g ! i @ ''_steal='' @ py_str fmt s @ ''%;''
                      @ show_int (steal_warn cfg) @ '';'' @ show_int (steal_crit cfg) @ '';0;100'')
           \<and> ((\<forall>r. CHR '' '' \<notin> set (fmt r)) \<and> (\<forall>k \<in> set (cpu_id_list g). CHR '' '' \<notin> set k)
                \<longrightarrow> list_all (\<lambda>t. CHR '' '' \<notin> set t) toks
                    \<and> length (filter (\<lambda>c. c = CHR '' '') (py_join toks))
                        = 3 * length (cpu_id_list g) - 1)"
    by (rule performance_data_tokens)
next
  assume "\<not> list_all (has_rates g) (cpu_id_list g)"
  from perf_loop_missing [OF this, of fmt cfg "[]"]
  show "\<exists>k. k \<in> set (cpu_id_list g) \<and> \<not> has_rates g k
            \<and> performance_data fmt cfg g = Inl (KeyError k)"
    by (auto simp: performance_data_def)
next
  show "(performance_data fmt cfg g = Inl e) = (performance_data fmt cfg' g = Inl e)"
    by (rule performance_data_error_any_thresholds)
next
  assume a: "get_cpu_stats cfg0 g0 text0 text1 = Inr g"
  from get_cpu_stats_rates_and_ids [OF a]
  show "list_all (has_rates g) (cpu_id_list g)"
    and "cpu_id_list g = map (\<lambda>l. hd (py_split l)) (filter (\<lambda>l. startswith l ''cpu'') (split_nl text1))"
    and "\<forall>k \<in> set (cpu_id_list g). CHR '' '' \<notin> set k"
    by blast+
qed

theorem performance_data_exact_witness:
  "get_cpu_stats default_config initial_globals stat_d0 stat_d1 = Inr final_d
   \<and> list_all (has_rates final_d) (cpu_id_list final_d)
   \<and> cpu_id_list final_d = [''cpu'']
   \<and> (\<exists>toks. performance_data whole_repr default_config final_d = Inr (py_join toks)
          \<and> length toks = 3
          \<and> toks ! 0 = ''cpu=100.0%;95;98;0;100''
          \<and> toks ! 1 = ''cpu_iowait=-10.0%;90;98;0;100''
          \<and> toks ! 2 = ''cpu_steal=0.0%;30;80;0;100''
          \<and> length (filter (\<lambda>c. c = CHR '' '') (py_join toks)) = 2)
   \<and> \<not> list_all (has_rates listed_without_rates) (cpu_id_list listed_without_rates)
   \<and> performance_data whole_repr default_config listed_without_rates = Inl (KeyError ''cpu'')"
proof -
  have h: "get_cpu_stats default_config initial_globals stat_d0 stat_d1 = Inr final_d"
    by code_simp
  have hr: "list_all (has_rates final_d) (cpu_id_list final_d)"
    by code_simp
  have ids: "cpu_id_list final_d = [''cpu'']"
    by (simp add: final_d_def)
  have v: "map_of (cpu_percent final_d) ''cpu'' = Some (PyFloat 100)"
          "map_of (io_wait_percent final_d) ''cpu'' = Some (PyFloat (- 10))"
          "map_of (steal_percent final_d) ''cpu'' = Some (PyFloat 0)"
    by (simp_all add: final_d_def)
  have t0: "''cpu'' @ ''='' @ py_str whole_repr (PyFloat 100) @ ''%;''
              @ show_int (warn default_config) @ '';'' @ show_int (crit default_config) @ '';0;100''
            = ''cpu=100.0%;95;98;0;100''"
    by code_simp
  have t1: "''cpu'' @ ''_iowait='' @ py_str whole_repr (PyFloat (- 10)) @ ''%;''
              @ show_int (io_warn default_config) @ '';'' @ show_int (io_crit default_config) @ '';0;100''
            = ''cpu_iowait=-10.0%;90;98;0;100''"
    by code_simp
  have t2: "''cpu'' @ ''_steal='' @ py_str whole_repr (PyFloat 0) @ ''%;''
              @ show_int (steal_warn default_config) @ '';'' @ show_int (steal_crit default_config) @ '';0;100''
            = ''cpu_steal=0.0%;30;80;0;100''"
    by code_simp
  have ns: "(\<forall>r. CHR '' '' \<notin> set (whole_repr r)) \<and> (\<forall>k \<in> set (cpu_id_list final_d). CHR '' '' \<notin> set k)"
    by (simp add: whole_repr_no_space ids)
  note e1 = performance_data_exact [where g = final_d and fmt = whole_repr and cfg = default_config
      and cfg0 = default_config and ?g0.0 = initial_globals and ?text0.0 = stat_d0 and ?text1.0 = stat_d1]
  from e1 hr obtain toks where
    o: "performance_data whole_repr default_config final_d = Inr (py_join toks)"
    and l: "length toks = 3 * length (cpu_id_list final_d)"
    and each: "\<forall>i < length (cpu_id_list final_d). \<exists>c w s.
                  map_of (cpu_percent final_d) (cpu_id_list final_d ! i) = Some c
                \<and> map_of (io_wait_percent final_d) (cpu_id_list final_d ! i) = Some w
                \<and> map_of (steal_percent final_d) (cpu_id_list final_d ! i) = Some s
                \<and> toks ! (3 * i) = cpu_id_list final_d ! i @ ''='' @ py_str whole_repr c @ ''%;''
                      @ show_int (warn default_config) @ '';'' @ show_int (crit default_config) @ '';0;100''
                \<and> toks ! (3 * i + 1) = cpu_id_list final_d ! i @ ''_iowait='' @ py_str whole_repr w @ ''%;''
                      @ show_int (io_warn default_config) @ '';'' @ show_int (io_crit default_config) @ '';0;100''
                \<and> toks ! (3 * i + 2) = cpu_id_list final_d ! i @ ''_steal='' @ py_str whole_repr s @ ''%;''
                      @ show_int (steal_warn default_config) @ '';'' @ show_int (steal_crit default_config) @ '';0;100''"
    and sp: "(\<forall>r. CHR '' '' \<notin> set (whole_repr r)) \<and> (\<forall>k \<in> set (cpu_id_list final_d). CHR '' '' \<notin> set k)
                \<longrightarrow> list_all (\<lambda>t. CHR '' '' \<notin> set t) toks
                    \<and> length (filter (\<lambda>c. c = CHR '' '') (py_join toks))
                        = 3 * length (cpu_id_list final_d) - 1"
    by blast
  have i0: "cpu_id_list final_d ! 0 = ''cpu''" and lt: "0 < length (cpu_id_list final_d)"
    by (simp_all add: ids)
  from each [rule_format, OF lt] obtain c w s where
    a: "map_of (cpu_percent final_d) (cpu_id_list final_d ! 0) = Some c"
       "map_of (io_wait_percent final_d) (cpu_id_list final_d ! 0) = Some w"
       "map_of (steal_percent final_d) (cpu_id_list final_d ! 0) = Some s"
    and b0: "toks ! (3 * 0) = cpu_id_list final_d ! 0 @ ''='' @ py_str whole_repr c @ ''%;''
                      @ show_int (warn default_config) @ '';'' @ show_int (crit default_config) @ '';0;100''"
    and b1: "toks ! (3 * 0 + 1) = cpu_id_list final_d ! 0 @ ''_iowait='' @ py_str whole_repr w @ ''%;''
                      @ show_int (io_warn default_config) @ '';'' @ show_int (io_crit default_config) @ '';0;100''"
    and b2: "toks ! (3 * 0 + 2) = cpu_id_list final_d ! 0 @ ''_steal='' @ py_str whole_repr s @ ''%;''
                      @ show_int (steal_warn default_config) @ '';'' @ show_int (steal_crit default_config) @ '';0;100''"
    by blast
  from a v have cws: "c = PyFloat 100" "w = PyFloat (- 10)" "s = PyFloat 0"
    by (simp_all add: i0)
  have "toks ! (3 * 0) = ''cpu=100.0%;95;98;0;100''"
    using b0 unfolding i0 cws t0 .
  moreover have "toks ! (3 * 0 + 1) = ''cpu_iowait=-10.0%;90;98;0;100''"
    using b1 unfolding i0 cws t1 .
  moreover have "toks ! (3 * 0 + 2) = ''cpu_steal=0.0%;30;80;0;100''"
    using b2 unfolding i0 cws t2 .
  ultimately have tk: "toks ! 0 = ''cpu=100.0%;95;98;0;100'' \<and> toks ! 1 = ''cpu_iowait=-10.0%;90;98;0;100''
                 \<and> toks ! 2 = ''cpu_steal=0.0%;30;80;0;100''"
    by (simp add: numeral_2_eq_2)
  from sp ns l ids have cnt: "length (filter (\<lambda>c. c = CHR '' '') (py_join toks)) = 2"
    by simp
  from l ids have l3: "length toks = 3" by simp
  have nr: "\<not> list_all (has_rates listed_without_rates) (cpu_id_list listed_without_rates)"
    by code_simp
  note e2 = performance_data_exact [where g = listed_without_rates and fmt = whole_repr and cfg = default_config]
  from e2 nr obtain k where k: "k \<in> set (cpu_id_list listed_without_rates)"
    and f: "performance_data whole_repr default_config listed_without_rates = Inl (KeyError k)"
    by blast
  from k have "k = ''cpu''" by (simp add: listed_without_rates_def)
  with f have f': "performance_data whole_repr default_config listed_without_rates = Inl (KeyError ''cpu'')"
    by simp
  from h hr ids o l3 tk cnt nr f' show ?thesis by blast
qed


section \<open>Claim C10: a scalar line before any cpu line\<close>

text \<open>
  C10. If the first line of the statistics text that is not ignored begins with \<open>ctxt\<close> or
  with \<open>processes\<close>, no cpu line has been split yet, the local \<open>parts\<close> is unbound, and
  \<open>get_procstat_now\<close> ends with \<open>UnboundLocalError\<close>.
\<close>

theorem scalar_before_cpu_raises:
  assumes "dropWhile ignored_line (split_nl procstat_text) = l # rest"
      and "startswith l ''ctxt'' \<or> startswith l ''processes''"
  shows "get_procstat_now procstat_text = Inl UnboundLocalError"
  using procstat_loop_scalar_first [OF _ assms]
  by (simp add: get_procstat_now_def)

theorem scalar_before_cpu_raises_witness:
  "get_procstat_now (''btime 17'' @ [CHR 0x0A] @ ''ctxt 5000'' @ [CHR 0x0A] @ ''cpu 1 2 3 4'')
     = Inl UnboundLocalError"
proof -
  have d: "dropWhile ignored_line (split_nl (''btime 17'' @ [CHR 0x0A] @ ''ctxt 5000'' @ [CHR 0x0A] @ ''cpu 1 2 3 4''))
        = ''ctxt 5000'' # [''cpu 1 2 3 4'']"
    by (simp add: ignored_line_def startswith_def)
  have s: "startswith ''ctxt 5000'' ''ctxt'' \<or> startswith ''ctxt 5000'' ''processes''"
    by (simp add: startswith_def)
  show ?thesis by (rule scalar_before_cpu_raises [OF d s])
qed

end
